theory Spec2Isabelle
  imports Complex_Main
begin

section \<open>Stroke arrays\<close>

text \<open>
  Every stroke array of the program is a numpy array of shape \<open>(N, 3)\<close>: column 0 and
  column 1 hold a position \<open>(x, y)\<close> (or a displacement \<open>(dx, dy)\<close> in an offset
  array), column 2 the end-of-stroke flag, which is a float like the others
  (\<open>1.0\<close> on the last point of a stroke). A row is a record of the three columns and an
  array is the list of its rows. The float64 entries are modelled by reals; NaN and
  infinities are outside the model.
\<close>

record row =
  px :: real
  py :: real
  eos :: real

type_synonym coords = "row list"

definition mk_row :: "real \<Rightarrow> real \<Rightarrow> real \<Rightarrow> row" where
  "mk_row a b e = \<lparr>px = a, py = b, eos = e\<rparr>"

text \<open>\<open>np.concatenate([xy, e], axis=1)\<close>: rows assembled from an \<open>(N, 2)\<close> block given by
  its two columns and an \<open>(N, 1)\<close> block.\<close>

definition hstack3 :: "real list \<Rightarrow> real list \<Rightarrow> real list \<Rightarrow> coords" where
  "hstack3 xs ys es = map (\<lambda>(a, b, e). mk_row a b e) (zip xs (zip ys es))"

subsection \<open>float64 arithmetic\<close>

text \<open>
  The conversion between offsets and coordinates is nothing but float64 subtractions and
  additions, and what it returns depends on their rounding; there the operations are
  modelled with it. An IEEE 754 operation returns the exact result rounded to the nearest
  binary64 number, ties to the one with an even significand: for \<open>2^e \<le> |x| < 2^(e + 1)\<close>
  the binary64 numbers are the multiples of \<open>2^(e - 52)\<close>, and below \<open>2^(-1022)\<close> the
  multiples of \<open>2^(-1074)\<close>. A rounded result of magnitude \<open>2^1024\<close> or more is an
  infinity in numpy; the reals have no such value, and the model stops there (\<open>None\<close>).
\<close>

definition round_half_even :: "real \<Rightarrow> int" where
  "round_half_even x =
     (let f = \<lfloor>x\<rfloor>;
          d = x - real_of_int f
      in if d < 1 / 2 then f
         else if d > 1 / 2 then f + 1
         else if even f then f else f + 1)"

definition round_float64 :: "real \<Rightarrow> real" where
  "round_float64 x =
     (if x = 0 then 0
      else (let e = max \<lfloor>log 2 \<bar>x\<bar>\<rfloor> (- 1022);
                ulp = 2 powr (real_of_int e - 52)
            in real_of_int (round_half_even (x / ulp)) * ulp))"

definition float64 :: "real \<Rightarrow> real option" where
  "float64 x = (let r = round_float64 x in if \<bar>r\<bar> < 2 ^ 1024 then Some r else None)"

text \<open>A real number that is a (finite) binary64 number: rounding returns it.\<close>

definition representable :: "real \<Rightarrow> bool" where
  "representable v = (float64 v = Some v)"

subsection \<open>Offsets and coordinates (\<open>coords_to_offsets\<close>, \<open>offsets_to_coords\<close>)\<close>

text \<open>
  \<open>np.cumsum\<close> along axis 0: the first entry is the first element, every later entry is
  the float64 sum of the entry before it and the next element.
\<close>

fun cumsum_from :: "real \<Rightarrow> real list \<Rightarrow> real list option" where
  "cumsum_from acc [] = Some []"
| "cumsum_from acc (v # vs) =
     (case float64 (acc + v) of
        None \<Rightarrow> None
      | Some s \<Rightarrow> map_option (\<lambda>rest. s # rest) (cumsum_from s vs))"

definition cumsum :: "real list \<Rightarrow> real list option" where
  "cumsum vs =
     (case vs of
        [] \<Rightarrow> Some []
      | v # rest \<Rightarrow> map_option (\<lambda>later. v # later) (cumsum_from v rest))"

text \<open>
  \<open>coords[1:, :2] - coords[:-1, :2]\<close> paired with \<open>coords[1:, 2:3]\<close>: each row from the
  second on minus its predecessor, in float64, keeping its own flag; then the row
  \<open>[0, 0, 1]\<close> is put in front.
\<close>

definition row_difference :: "row \<Rightarrow> row \<Rightarrow> row option" where
  "row_difference a b =
     (case float64 (px a - px b) of
        None \<Rightarrow> None
      | Some dx \<Rightarrow>
         (case float64 (py a - py b) of
            None \<Rightarrow> None
          | Some dy \<Rightarrow> Some (mk_row dx dy (eos a))))"

definition coords_to_offsets :: "coords \<Rightarrow> coords option" where
  "coords_to_offsets c =
     map_option (\<lambda>offsets. mk_row 0 0 1 # offsets)
       (those (map (\<lambda>(a, b). row_difference a b) (zip (drop 1 c) (butlast c))))"

definition offsets_to_coords :: "coords \<Rightarrow> coords option" where
  "offsets_to_coords offsets =
     (case cumsum (map px offsets) of
        None \<Rightarrow> None
      | Some xs \<Rightarrow>
         (case cumsum (map py offsets) of
            None \<Rightarrow> None
          | Some ys \<Rightarrow> Some (hstack3 xs ys (map eos offsets))))"

text \<open>Coordinates to offsets and back.\<close>

definition offsets_roundtrip :: "coords \<Rightarrow> coords option" where
  "offsets_roundtrip c = Option.bind (coords_to_offsets c) offsets_to_coords"

section \<open>Messiness (\<open>add_messiness\<close>)\<close>

subsection \<open>The random generator\<close>

text \<open>
  \<open>add_messiness\<close> draws from numpy's global generator. The generator's state is
  modelled by the stream of raw variates it has still to deliver; a draw takes the head
  of the stream and leaves the rest. \<open>np.random.uniform(lo, hi)\<close> is
  \<open>lo + (hi - lo) * u\<close> for the next raw variate \<open>u\<close>, and an entry of
  \<open>np.random.normal(loc, scale, shape)\<close> is \<open>loc + scale * z\<close> for the next raw variate
  \<open>z\<close>, the entries being filled row by row. Nothing is assumed about the variates.
\<close>

type_synonym rng = "nat \<Rightarrow> real"

definition rng_next :: "rng \<Rightarrow> real \<times> rng" where
  "rng_next g = (g 0, \<lambda>n. g (Suc n))"

definition uniform :: "real \<Rightarrow> real \<Rightarrow> rng \<Rightarrow> real \<times> rng" where
  "uniform lo hi g = (let (u, g') = rng_next g in (lo + (hi - lo) * u, g'))"

fun normal_rows :: "real \<Rightarrow> real \<Rightarrow> nat \<Rightarrow> rng \<Rightarrow> (real \<times> real) list \<times> rng" where
  "normal_rows loc scale 0 g = ([], g)"
| "normal_rows loc scale (Suc n) g =
     (let (z1, g1) = rng_next g;
          (z2, g2) = rng_next g1;
          (rest, g3) = normal_rows loc scale n g2
      in ((loc + scale * z1, loc + scale * z2) # rest, g3))"

subsection \<open>Array operations\<close>

text \<open>\<open>np.mean\<close> of a column.\<close>

definition mean :: "real list \<Rightarrow> real" where
  "mean vs = sum_list vs / real (length vs)"

text \<open>In-place elementwise updates of column 0 and of column 1.\<close>

definition map_px :: "(real \<Rightarrow> real) \<Rightarrow> coords \<Rightarrow> coords" where
  "map_px f s = map (\<lambda>p. p\<lparr>px := f (px p)\<rparr>) s"

definition map_py :: "(real \<Rightarrow> real) \<Rightarrow> coords \<Rightarrow> coords" where
  "map_py f s = map (\<lambda>p. p\<lparr>py := f (py p)\<rparr>) s"

text \<open>Column assignments \<open>s[:, 0] = vs\<close> and \<open>s[:, 1] = vs\<close>.\<close>

definition set_px :: "real list \<Rightarrow> coords \<Rightarrow> coords" where
  "set_px vs s = map (\<lambda>(v, p). p\<lparr>px := v\<rparr>) (zip vs s)"

definition set_py :: "real list \<Rightarrow> coords \<Rightarrow> coords" where
  "set_py vs s = map (\<lambda>(v, p). p\<lparr>py := v\<rparr>) (zip vs s)"

text \<open>\<open>s[:, :2] += noise\<close> for an \<open>(N, 2)\<close> array of noise.\<close>

definition add_xy :: "(real \<times> real) list \<Rightarrow> coords \<Rightarrow> coords" where
  "add_xy noise s = map (\<lambda>((a, b), p). p\<lparr>px := px p + a, py := py p + b\<rparr>) (zip noise s)"

text \<open>The slice \<open>a[start:end]\<close> and the slice assignment \<open>a[start:end] = new\<close>.\<close>

definition slice :: "nat \<Rightarrow> nat \<Rightarrow> 'a list \<Rightarrow> 'a list" where
  "slice start end xs = take (end - start) (drop start xs)"

definition assign_slice :: "nat \<Rightarrow> nat \<Rightarrow> 'a list \<Rightarrow> 'a list \<Rightarrow> 'a list" where
  "assign_slice start end new xs = take start xs @ new @ drop end xs"

subsection \<open>Stroke segments and the two regimes\<close>

text \<open>\<open>np.where(coords[:, 2] == 1)[0]\<close> and
  \<open>np.concatenate([[0], stroke_ends[:-1] + 1])\<close>.\<close>

definition stroke_ends :: "coords \<Rightarrow> nat list" where
  "stroke_ends coords = filter (\<lambda>i. eos (coords ! i) = 1) [0..<length coords]"

definition stroke_starts :: "coords \<Rightarrow> nat list" where
  "stroke_starts coords = 0 # map (\<lambda>e. e + 1) (butlast (stroke_ends coords))"

definition normal_factor :: "real \<Rightarrow> real" where
  "normal_factor messiness_factor = (if messiness_factor \<le> 1 then messiness_factor else 1)"

definition rush_factor :: "real \<Rightarrow> real" where
  "rush_factor messiness_factor = (if messiness_factor \<le> 1 then 0 else messiness_factor - 1)"

subsection \<open>The effects on one stroke\<close>

text \<open>Rotation of a stroke by \<open>total_lean\<close> about its centroid.\<close>

definition rotate_stroke :: "real \<Rightarrow> coords \<Rightarrow> coords" where
  "rotate_stroke total_lean s =
     (let center_x = mean (map px s);
          center_y = mean (map py s);
          s0 = map_py (\<lambda>v. v - center_y) (map_px (\<lambda>v. v - center_x) s);
          cos_a = cos total_lean;
          sin_a = sin total_lean;
          x_new = map (\<lambda>p. px p * cos_a - py p * sin_a) s0;
          y_new = map (\<lambda>p. px p * sin_a + py p * cos_a) s0
      in set_py (map (\<lambda>v. v + center_y) y_new) (set_px (map (\<lambda>v. v + center_x) x_new) s0))"

text \<open>1. Forward lean.\<close>

definition forward_lean :: "real \<Rightarrow> real \<Rightarrow> coords \<Rightarrow> rng \<Rightarrow> coords \<times> rng" where
  "forward_lean nf rf s g =
     (let (u1, g1) = uniform (- 2) 8 g;
          base_lean = nf * u1 * pi / 180;
          (u2, g2) = uniform 3 10 g1;
          rush_lean = rf * u2 * pi / 180;
          total_lean = base_lean + rush_lean
      in (if \<bar>total_lean\<bar> > 0.01 then rotate_stroke total_lean s else s, g2))"

text \<open>2. Baseline drift.\<close>

definition baseline_drift :: "real \<Rightarrow> real \<Rightarrow> coords \<Rightarrow> rng \<Rightarrow> coords \<times> rng" where
  "baseline_drift nf rf s g =
     (let (u1, g1) = uniform (- 1) 1 g;
          base_drift = nf * u1;
          (u2, g2) = uniform (- 2) 2 g1;
          rush_drift = rf * u2
      in (map_py (\<lambda>v. v + (base_drift + rush_drift)) s, g2))"

text \<open>3. Letter height variations.\<close>

definition height_variation :: "real \<Rightarrow> real \<Rightarrow> coords \<Rightarrow> rng \<Rightarrow> coords \<times> rng" where
  "height_variation nf rf s g =
     (let (u1, g1) = uniform (- 0.08) 0.08 g;
          base_size_var = nf * u1;
          (u2, g2) = uniform (- 0.12) 0.12 g1;
          rush_size_var = rf * u2;
          size_variation = 1 + base_size_var + rush_size_var;
          center_y = mean (map py s)
      in (map_py (\<lambda>v. (v - center_y) * size_variation + center_y) s, g2))"

text \<open>4. Horizontal compression (no random draw).\<close>

definition horizontal_compression :: "real \<Rightarrow> real \<Rightarrow> coords \<Rightarrow> coords" where
  "horizontal_compression nf rf s =
     (let base_compression = nf * 0.05;
          rush_compression = rf * 0.15;
          compression = 1 - (base_compression + rush_compression);
          center_x = mean (map px s)
      in map_px (\<lambda>v. (v - center_x) * compression + center_x) s)"

text \<open>5. Pen pressure fluctuation, for strokes of more than three points.\<close>

definition pressure_fluctuation :: "real \<Rightarrow> real \<Rightarrow> coords \<Rightarrow> rng \<Rightarrow> coords \<times> rng" where
  "pressure_fluctuation nf rf s g =
     (if length s > 3
      then (let pressure_var = nf * 0.1 + rf * 0.2;
                (pressure_noise, g1) = normal_rows 0 pressure_var (length s) g
            in (add_xy (map (\<lambda>(a, b). (a * 0.3, b * 0.3)) pressure_noise) s, g1))
      else (s, g))"

definition messy_stroke :: "real \<Rightarrow> real \<Rightarrow> coords \<Rightarrow> rng \<Rightarrow> coords \<times> rng" where
  "messy_stroke nf rf s g =
     (let (s1, g1) = forward_lean nf rf s g;
          (s2, g2) = baseline_drift nf rf s1 g1;
          (s3, g3) = height_variation nf rf s2 g2;
          s4 = horizontal_compression nf rf s3
      in pressure_fluctuation nf rf s4 g3)"

text \<open>
  The loop over \<open>zip(stroke_starts, stroke_ends + 1)\<close>. A segment of fewer than two points
  is skipped (\<open>continue\<close>); the others are transformed and written back.
\<close>

fun stroke_loop :: "real \<Rightarrow> real \<Rightarrow> (nat \<times> nat) list \<Rightarrow> coords \<Rightarrow> rng \<Rightarrow> coords \<times> rng" where
  "stroke_loop nf rf [] coords g = (coords, g)"
| "stroke_loop nf rf ((start, end) # rest) coords g =
     (let stroke_coords = slice start end coords
      in if length stroke_coords < 2 then stroke_loop nf rf rest coords g
         else (let (s', g') = messy_stroke nf rf stroke_coords g
               in stroke_loop nf rf rest (assign_slice start end s' coords) g'))"

subsection \<open>Effects across strokes\<close>

text \<open>
  6. Spacing irregularity: for every stroke start but the first,
  \<open>coords[start:] += [total_spacing, 0, 0]\<close>.
\<close>

fun spacing_loop :: "real \<Rightarrow> real \<Rightarrow> nat list \<Rightarrow> coords \<Rightarrow> rng \<Rightarrow> coords \<times> rng" where
  "spacing_loop nf rf [] coords g = (coords, g)"
| "spacing_loop nf rf (start # rest) coords g =
     (let (u1, g1) = uniform (- 2) 4 g;
          base_spacing = nf * u1;
          (u2, g2) = uniform (- 4) 8 g1;
          rush_spacing = rf * u2;
          total_spacing = base_spacing + rush_spacing
      in spacing_loop nf rf rest
           (take start coords @
            map (\<lambda>p. \<lparr>px = px p + total_spacing, py = py p + 0, eos = eos p + 0\<rparr>)
              (drop start coords))
           g2)"

text \<open>
  7. Gradual drift across the whole line (rush mode only). The inner loop runs over the
  row indices and updates column 1 of one row at a time.
\<close>

fun drift_loop :: "real \<Rightarrow> real \<Rightarrow> nat list \<Rightarrow> coords \<Rightarrow> coords" where
  "drift_loop drift_amplitude x_range [] coords = coords"
| "drift_loop drift_amplitude x_range (i # rest) coords =
     (let progress = (px (coords ! i) - px (coords ! 0)) / x_range
      in drift_loop drift_amplitude x_range rest
           (coords[i := (coords ! i)\<lparr>py := py (coords ! i) + drift_amplitude * sin (progress * pi)\<rparr>]))"

definition global_drift :: "real \<Rightarrow> coords \<Rightarrow> rng \<Rightarrow> coords \<times> rng" where
  "global_drift rf coords g =
     (if rf > 0 \<and> length coords > 10
      then (let x_range = px (last coords) - px (coords ! 0)
            in if x_range > 0
               then (let (u, g1) = uniform (- 3) 3 g;
                         drift_amplitude = rf * u
                     in (drift_loop drift_amplitude x_range [0..<length coords] coords, g1))
               else (coords, g))
      else (coords, g))"

subsection \<open>The whole function\<close>

definition add_messiness :: "coords \<Rightarrow> real \<Rightarrow> rng \<Rightarrow> coords \<times> rng" where
  "add_messiness coords messiness_factor g =
     (if messiness_factor \<le> 0 then (coords, g)
      else (let ends = stroke_ends coords;
                starts = stroke_starts coords;
                nf = normal_factor messiness_factor;
                rf = rush_factor messiness_factor;
                (c1, g1) = stroke_loop nf rf (zip starts (map (\<lambda>e. e + 1) ends)) coords g;
                (c2, g2) = (if length starts > 1 then spacing_loop nf rf (tl starts) c1 g1
                            else (c1, g1))
            in global_drift rf c2 g2))"

section \<open>Text: alphabet, validation and encoding\<close>

text \<open>
  A Python string is a sequence of Unicode code points and \<open>len\<close> counts code points, so a
  character is modelled by its code point and a string by the list of its characters.
\<close>

type_synonym pychar = nat
type_synonym pystr = "pychar list"

text \<open>The module constant \<open>alphabet\<close> of \<open>drawing.py\<close>, in the order of the source.\<close>

definition alphabet :: "pychar list" where
  "alphabet = map of_char
     ([CHR 0x00, CHR '' '', CHR ''!'', CHR 0x22, CHR ''#'', CHR 0x27, CHR ''('', CHR '')'',
       CHR '','', CHR ''-'', CHR ''.'']
      @ ''0123456789'' @ '':;''
      @ ''?ABCDEFGHIJK''
      @ ''LMNOPRSTUVWY''
      @ ''abcdefghijkl''
      @ ''mnopqrstuvwx''
      @ ''yz'')"

subsection \<open>Errors\<close>

text \<open>
  The exceptions the modelled functions raise. The two validation failures of
  \<open>Hand.write\<close> are both \<open>ValueError\<close>s and differ in their message, which quotes the
  line number and either the length of the line or the offending character.
\<close>

datatype message =
    TooLong nat nat
  | InvalidChar pychar nat
  | EmptyMax
  | NoArrays
  | NegativeSamples

datatype py_error = ValueError message | IndexError

subsection \<open>Validation in \<open>Hand.write\<close>\<close>




subsection \<open>Encoding (\<open>alpha_to_num\<close>, \<open>encode_ascii\<close>)\<close>

text \<open>
  \<open>alpha_to_num\<close> is a \<open>defaultdict(int)\<close> built from the pairs (character, index); a
  later pair for the same key would replace an earlier one. Reading a key that is absent
  yields the default \<open>0\<close> and stores it in the dictionary, so the dictionary is threaded
  through the reads.
\<close>

type_synonym alpha_dict = "pychar \<rightharpoonup> nat"

definition alpha_to_num :: alpha_dict where
  "alpha_to_num =
     fold (\<lambda>(i, c) d. d(c \<mapsto> i)) (zip [0..<length alphabet] alphabet) Map.empty"

definition getitem_default :: "alpha_dict \<Rightarrow> pychar \<Rightarrow> nat \<times> alpha_dict" where
  "getitem_default d k = (case d k of Some v \<Rightarrow> (v, d) | None \<Rightarrow> (0, d(k \<mapsto> 0)))"

text \<open>\<open>list(map(lambda x: alpha_to_num[x], ascii_string))\<close>, read from left to right.\<close>

fun encode_chars :: "alpha_dict \<Rightarrow> pystr \<Rightarrow> nat list \<times> alpha_dict" where
  "encode_chars d [] = ([], d)"
| "encode_chars d (x # rest) =
     (let (v, d1) = getitem_default d x;
          (vs, d2) = encode_chars d1 rest
      in (v # vs, d2))"

definition encode_ascii :: "alpha_dict \<Rightarrow> pystr \<Rightarrow> nat list \<times> alpha_dict" where
  "encode_ascii d ascii_string =
     (let (vs, d') = encode_chars d ascii_string in (vs @ [0], d'))"

text \<open>
  The states the dictionary can be in: outside the alphabet a key is either absent or
  stored with the default.
\<close>

definition defaults_only :: "alpha_dict \<Rightarrow> bool" where
  "defaults_only d = (\<forall>c. c \<notin> set alphabet \<longrightarrow> d c = None \<or> d c = Some 0)"

section \<open>Sampled offsets\<close>

text \<open>
  Each sample returned by the network is filtered by
  \<open>sample[~np.all(sample == 0.0, axis=1)]\<close>: a boolean mask, one entry per row, and the
  rows selected by the mask.
\<close>

definition all_zero :: "row \<Rightarrow> bool" where
  "all_zero r = (px r = 0 \<and> py r = 0 \<and> eos r = 0)"

definition boolean_index :: "'a list \<Rightarrow> bool list \<Rightarrow> 'a list" where
  "boolean_index xs keep = map fst (filter snd (zip xs keep))"

definition strip_zero_rows :: "coords \<Rightarrow> coords" where
  "strip_zero_rows sample = boolean_index sample (map (\<lambda>b. \<not> b) (map all_zero sample))"


text \<open>
  The two readings of the specification's wording, for comparison: cutting the array at
  its first all-zero row, and removing the all-zero rows at its end.
\<close>

definition spec_truncate_at_first_zero :: "coords \<Rightarrow> coords" where
  "spec_truncate_at_first_zero sample = takeWhile (\<lambda>r. \<not> all_zero r) sample"

definition spec_strip_trailing_zeros :: "coords \<Rightarrow> coords" where
  "spec_strip_trailing_zeros sample = rev (dropWhile all_zero (rev sample))"

section \<open>Generation and rendering (\<open>Hand._sample\<close>, \<open>Hand.write\<close>)\<close>






section \<open>Strokes: splitting, smoothing, resampling\<close>

subsection \<open>Splitting at the ends of strokes\<close>

text \<open>
  \<open>np.split(ary, indices)\<close> cuts at the division points \<open>0, indices, len(ary)\<close> and
  returns the slice between each point and the next. \<open>denoise\<close> and \<open>interpolate\<close>
  both split at \<open>np.where(coords[:, 2] == 1)[0] + 1\<close>.
\<close>

definition np_split :: "'a list \<Rightarrow> nat list \<Rightarrow> 'a list list" where
  "np_split ary indices =
     (let div_points = 0 # indices @ [length ary]
      in map (\<lambda>(st, end). slice st end ary) (zip div_points (tl div_points)))"

definition split_strokes :: "coords \<Rightarrow> coords list" where
  "split_strokes coords = np_split coords (map (\<lambda>i. i + 1) (stroke_ends coords))"

text \<open>\<open>np.vstack\<close> of a Python list of arrays; it raises \<open>ValueError\<close> on the empty list.\<close>

definition np_vstack :: "coords list \<Rightarrow> py_error + coords" where
  "np_vstack arrays = (if arrays = [] then Inl (ValueError NoArrays) else Inr (concat arrays))"

subsection \<open>Smoothing (\<open>denoise\<close>)\<close>

text \<open>
  Modelled from the spec: \<open>scipy.signal.savgol_filter\<close> is library code outside the
  repository. The call \<open>savgol_filter(v, 7, 3, mode='nearest')\<close> is the 7-point filter of
  polynomial degree 3 with nearest-value padding at both edges: entry \<open>i\<close> of the result
  is the weighted sum of the entries \<open>i - 3, \<dots>, i + 3\<close> of the input, an index outside
  the input being replaced by the nearest one inside. The weights are those of the
  least-squares cubic through seven equally spaced points, evaluated at the middle one.
  The result has the length of the input, whatever that length is.
\<close>

definition savgol_coeffs :: "real list" where
  "savgol_coeffs = [- 2 / 21, 3 / 21, 6 / 21, 7 / 21, 6 / 21, 3 / 21, - 2 / 21]"

definition nearest_pad :: "real list \<Rightarrow> int \<Rightarrow> real" where
  "nearest_pad v i = v ! nat (max 0 (min i (int (length v) - 1)))"

definition savgol_filter :: "real list \<Rightarrow> real list" where
  "savgol_filter v =
     map (\<lambda>i. sum_list (map (\<lambda>j. savgol_coeffs ! j * nearest_pad v (int i + int j - 3)) [0..<7]))
       [0..<length v]"

text \<open>The loop of \<open>denoise\<close> over the pieces: an empty piece is passed over, every other
  piece is appended to \<open>new_coords\<close> with its two position columns filtered and its
  end-of-stroke column as it was.\<close>

fun denoise_loop :: "coords list \<Rightarrow> coords list" where
  "denoise_loop [] = []"
| "denoise_loop (stroke # rest) =
     (if length stroke \<noteq> 0
      then (let x_new = savgol_filter (map px stroke);
                y_new = savgol_filter (map py stroke)
            in hstack3 x_new y_new (map eos stroke) # denoise_loop rest)
      else denoise_loop rest)"

definition denoise :: "coords \<Rightarrow> py_error + coords" where
  "denoise coords = np_vstack (denoise_loop (split_strokes coords))"

subsection \<open>Resampling (\<open>interpolate\<close>)\<close>

text \<open>
  \<open>np.linspace(start, stop, num)\<close> with the end point included: \<open>num\<close> values
  \<open>i * step + start\<close>, the last one set to \<open>stop\<close>; a negative \<open>num\<close> raises
  \<open>ValueError\<close>.
\<close>

definition linspace :: "real \<Rightarrow> real \<Rightarrow> int \<Rightarrow> py_error + real list" where
  "linspace start stop num =
     (if num < 0 then Inl (ValueError NegativeSamples)
      else (let n = nat num;
                divisor = num - 1;
                delta = stop - start;
                y = (if divisor > 0
                     then map (\<lambda>i. real i * (delta / real_of_int divisor) + start) [0..<n]
                     else map (\<lambda>i. real i * delta + start) [0..<n])
            in Inr (if num > 1 then y[n - 1 := stop] else y)))"

text \<open>
  The two position columns of the resampled stroke. \<open>scipy.interpolate.interp1d\<close> is
  library code; the interpolant it builds is the parameter \<open>cubic\<close>: \<open>cubic vs t\<close> is the
  value at \<open>t\<close> of the cubic interpolant through the values \<open>vs\<close> placed at
  \<open>0, 1, \<dots>, len(vs) - 1\<close>. A stroke of at most three points keeps its positions.
\<close>

definition resample ::
  "(real list \<Rightarrow> real \<Rightarrow> real) \<Rightarrow> int \<Rightarrow> coords \<Rightarrow> py_error + (real \<times> real) list" where
  "resample cubic factor stroke =
     (if length stroke > 3
      then (case linspace 0 (real (length stroke) - 1) (factor * int (length stroke)) of
              Inl e \<Rightarrow> Inl e
            | Inr xx \<Rightarrow>
               (case linspace 0 (real (length stroke) - 1) (factor * int (length stroke)) of
                  Inl e \<Rightarrow> Inl e
                | Inr yy \<Rightarrow>
                    Inr (zip (map (cubic (map px stroke)) xx) (map (cubic (map py stroke)) yy))))
      else Inr (map (\<lambda>p. (px p, py p)) stroke))"

text \<open>
  The new end-of-stroke column: \<open>np.zeros([len(xy_coords), 1])\<close> with
  \<open>stroke_eos[-1] = 1.0\<close>, which raises \<open>IndexError\<close> when there is no row.
\<close>

definition terminate :: "(real \<times> real) list \<Rightarrow> py_error + coords" where
  "terminate xy_coords =
     (let stroke_eos = replicate (length xy_coords) (0::real)
      in if stroke_eos = [] then Inl IndexError
         else Inr (map (\<lambda>((a, b), e). mk_row a b e)
                     (zip xy_coords (stroke_eos[length stroke_eos - 1 := 1]))))"

definition interpolate_stroke ::
  "(real list \<Rightarrow> real \<Rightarrow> real) \<Rightarrow> int \<Rightarrow> coords \<Rightarrow> py_error + coords" where
  "interpolate_stroke cubic factor stroke =
     (case resample cubic factor stroke of
        Inl e \<Rightarrow> Inl e
      | Inr xy_coords \<Rightarrow> terminate xy_coords)"

text \<open>The loop of \<open>interpolate\<close>: an empty piece is passed over (\<open>continue\<close>); the first
  exception ends the loop.\<close>

fun interpolate_loop ::
  "(real list \<Rightarrow> real \<Rightarrow> real) \<Rightarrow> int \<Rightarrow> coords list \<Rightarrow> py_error + coords list" where
  "interpolate_loop cubic factor [] = Inr []"
| "interpolate_loop cubic factor (stroke # rest) =
     (if length stroke = 0 then interpolate_loop cubic factor rest
      else (case interpolate_stroke cubic factor stroke of
              Inl e \<Rightarrow> Inl e
            | Inr new_stroke \<Rightarrow>
               (case interpolate_loop cubic factor rest of
                  Inl e \<Rightarrow> Inl e
                | Inr new_coords \<Rightarrow> Inr (new_stroke # new_coords))))"

definition interpolate ::
  "(real list \<Rightarrow> real \<Rightarrow> real) \<Rightarrow> coords \<Rightarrow> int \<Rightarrow> py_error + coords" where
  "interpolate cubic coords factor =
     (case interpolate_loop cubic factor (split_strokes coords) of
        Inl e \<Rightarrow> Inl e
      | Inr new_coords \<Rightarrow> np_vstack new_coords)"

text \<open>The end-of-stroke column of a stroke of \<open>n\<close> points that ends, and only ends, with
  a lift of the pen.\<close>

definition eos_column :: "nat \<Rightarrow> real list" where
  "eos_column n = replicate (n - 1) 0 @ [1]"

text \<open>
  What \<open>interpolate\<close> makes of one non-empty stroke, as a relation between the stroke and
  its image: a stroke of more than three points becomes \<open>factor\<close> times as many points,
  a stroke of at most three points keeps its positions, and in both cases the image ends,
  and only ends, with a lift of the pen; so a stroke of at most three points that itself
  ends, and only ends, with a lift of the pen is its own image.
\<close>

definition resampled :: "int \<Rightarrow> coords \<Rightarrow> coords \<Rightarrow> bool" where
  "resampled factor stroke new_stroke =
     (if length stroke > 3
      then length new_stroke = nat factor * length stroke
           \<and> map eos new_stroke = eos_column (nat factor * length stroke)
      else map px new_stroke = map px stroke
           \<and> map py new_stroke = map py stroke
           \<and> map eos new_stroke = eos_column (length stroke)
           \<and> (map eos stroke = eos_column (length stroke) \<longrightarrow> new_stroke = stroke))"

text \<open>A stand-in for the interpolant where a concrete one is needed: the value at the
  grid point below \<open>t\<close>.\<close>

definition grid_value :: "real list \<Rightarrow> real \<Rightarrow> real" where
  "grid_value vs t = vs ! nat \<lfloor>t\<rfloor>"

section \<open>Auxiliary definitions for the statements\<close>

text \<open>One row after the drift step: column 1 moved by \<open>a * sin (progress * pi)\<close>, where
  \<open>progress = (x - x0) / r\<close>.\<close>

definition drifted :: "real \<Rightarrow> real \<Rightarrow> real \<Rightarrow> row \<Rightarrow> row" where
  "drifted a r x0 p = p\<lparr>py := py p + a * sin ((px p - x0) / r * pi)\<rparr>"

text \<open>A test line on the baseline \<open>y = 0\<close> with the given x values, written as one stroke.\<close>

definition flat_line :: "real list \<Rightarrow> coords" where
  "flat_line xs = map (\<lambda>x. mk_row x 0 0) (butlast xs) @ [mk_row (last xs) 0 1]"

text \<open>
  The progress of a point as the specification words it: measured from the minimum x of the
  sequence and divided by the range of x over the sequence.
\<close>

definition x_min :: "coords \<Rightarrow> real" where
  "x_min coords = Min (set (map px coords))"

definition x_max :: "coords \<Rightarrow> real" where
  "x_max coords = Max (set (map px coords))"

definition spec_progress :: "coords \<Rightarrow> nat \<Rightarrow> real" where
  "spec_progress coords i = (px (coords ! i) - x_min coords) / (x_max coords - x_min coords)"

section \<open>float64 numbers\<close>

lemma round_half_even_int: "round_half_even (real_of_int m) = m"
  by (simp add: round_half_even_def)

lemma float64_zero: "float64 0 = Some 0"
  by (simp add: float64_def round_float64_def)

lemma round_float64_multiple:
  assumes "x \<noteq> 0" and "\<lfloor>log 2 \<bar>x\<bar>\<rfloor> = e" and "- 1022 \<le> e"
    and "x = real_of_int m * 2 powr (real_of_int e - 52)"
  shows "round_float64 x = x"
proof -
  let ?ulp = "2 powr (real_of_int e - 52) :: real"
  have "?ulp > 0" by simp
  then have "x / ?ulp = real_of_int m"
    using assms(4) by simp
  then have "real_of_int (round_half_even (x / ?ulp)) * ?ulp = x"
    using assms(4) by (simp add: round_half_even_int)
  moreover have "max \<lfloor>log 2 \<bar>x\<bar>\<rfloor> (- 1022) = e"
    using assms(2,3) by simp
  ultimately show ?thesis
    using assms(1) by (simp add: round_float64_def Let_def)
qed

lemma representable_int:
  assumes "\<bar>m\<bar> < 2 ^ 53"
  shows "representable (real_of_int m)"
proof (cases "m = 0")
  case True
  then show ?thesis by (simp add: representable_def float64_zero)
next
  case False
  let ?x = "real_of_int m"
  let ?e = "\<lfloor>log 2 \<bar>?x\<bar>\<rfloor>"
  have pos: "1 \<le> \<bar>?x\<bar>"
    using False by (simp add: abs_if) 
  have e0: "0 \<le> ?e"
    using pos by simp
  have "\<bar>?x\<bar> < 2 ^ 53"
    using assms by (metis of_int_abs of_int_less_numeral_power_cancel_iff)
  then have "log 2 \<bar>?x\<bar> < 53"
    using pos by (simp add: log_less_iff)
  then have e52: "?e \<le> 52"
    by (simp add: floor_le_iff)
  define k where "k = nat (52 - ?e)"
  have k: "real_of_int ?e - 52 = - real k"
    using e52 by (simp add: k_def)
  have "2 powr (real_of_int ?e - 52) = 1 / 2 ^ k"
    unfolding k by (simp add: powr_minus powr_realpow divide_inverse)
  then have mult: "?x = real_of_int (m * 2 ^ k) * 2 powr (real_of_int ?e - 52)"
    by simp
  have nz: "?x \<noteq> 0"
    using False by simp
  have lo: "- 1022 \<le> ?e"
    using e0 by linarith
  have "round_float64 ?x = ?x"
    by (rule round_float64_multiple [OF nz refl lo mult])
  moreover have "\<bar>?x\<bar> < 2 ^ 1024"
  proof -
    have "(2::real) ^ 53 \<le> 2 ^ 1024"
      by (rule power_increasing) simp_all
    with \<open>\<bar>?x\<bar> < 2 ^ 53\<close> show ?thesis by linarith
  qed
  ultimately show ?thesis
    by (simp add: representable_def float64_def)
qed

lemma float64_representable: "representable v \<Longrightarrow> float64 v = Some v"
  by (simp add: representable_def)

lemma exp53: "\<lfloor>log 2 (9999999999999999::real)\<rfloor> = 53"
  by (simp add: floor_log_eq_powr_iff)

lemma exp53': "\<lfloor>log 2 (10000000000000000::real)\<rfloor> = 53"
  by (simp add: floor_log_eq_powr_iff)

lemma round_tie: "round_float64 (- 9999999999999999) = - 10000000000000000"
  by (simp add: round_float64_def exp53 round_half_even_def Let_def)

lemma round_big: "round_float64 (- 10000000000000000) = - 10000000000000000"
  by (simp add: round_float64_def exp53' round_half_even_def Let_def)

section \<open>Round trip through offsets\<close>

lemma those_map_Some: "\<forall>x \<in> set xs. f x = Some (g x) \<Longrightarrow> those (map f xs) = Some (map g xs)"
  by (induction xs) simp_all

lemma row_difference_exact:
  "representable (px a - px b) \<Longrightarrow> representable (py a - py b) \<Longrightarrow>
   row_difference a b = Some (mk_row (px a - px b) (py a - py b) (eos a))"
  by (simp add: row_difference_def representable_def)

lemma coords_to_offsets_exact:
  assumes "\<forall>(a, b) \<in> set (zip (drop 1 c) (butlast c)).
             representable (px a - px b) \<and> representable (py a - py b)"
  shows "coords_to_offsets c =
     Some (mk_row 0 0 1 #
       map (\<lambda>(a, b). mk_row (px a - px b) (py a - py b) (eos a)) (zip (drop 1 c) (butlast c)))"
proof -
  have "those (map (\<lambda>(a, b). row_difference a b) (zip (drop 1 c) (butlast c)))
      = Some (map (\<lambda>(a, b). mk_row (px a - px b) (py a - py b) (eos a)) (zip (drop 1 c) (butlast c)))"
    using assms by (intro those_map_Some) (auto simp add: row_difference_exact)
  then show ?thesis
    by (simp add: coords_to_offsets_def)
qed

lemma cumsum_from_exact:
  assumes "\<forall>a \<in> set xs. representable (f a - x0)"
  shows "cumsum_from (f x - x0) (map (\<lambda>(a, b). f a - f b) (zip xs (butlast (x # xs))))
     = Some (map (\<lambda>a. f a - x0) xs)"
  using assms
proof (induction xs arbitrary: x)
  case Nil
  show ?case by simp
next
  case (Cons y ys)
  have "f x - x0 + (f y - f x) = f y - x0"
    by simp
  moreover have "float64 (f y - x0) = Some (f y - x0)"
    using Cons.prems by (simp add: representable_def)
  ultimately have step: "float64 (f x - x0 + (f y - f x)) = Some (f y - x0)"
    by simp
  have "cumsum_from (f y - x0) (map (\<lambda>(a, b). f a - f b) (zip ys (butlast (y # ys))))
      = Some (map (\<lambda>a. f a - x0) ys)"
    using Cons.prems by (intro Cons.IH) simp
  with step show ?case
    by (simp del: butlast.simps add: butlast.simps(2) [of x "y # ys"])
qed

lemma cumsum_differences:
  assumes "\<forall>a \<in> set xs. representable (f a - f x)"
  shows "cumsum (0 # map (\<lambda>(a, b). f a - f b) (zip xs (butlast (x # xs))))
     = Some (map (\<lambda>a. f a - f x) (x # xs))"
proof -
  have "cumsum_from (f x - f x) (map (\<lambda>(a, b). f a - f b) (zip xs (butlast (x # xs))))
     = Some (map (\<lambda>a. f a - f x) xs)"
    using assms by (rule cumsum_from_exact)
  then show ?thesis
    by (simp add: cumsum_def)
qed

text \<open>
  Claim C3, as amended. For every non-empty coordinate sequence \<open>c\<close> whose float64
  operations in the conversion are exact, that is, for every index \<open>j > 0\<close> the
  differences \<open>c[j] - c[j - 1]\<close> and \<open>c[j] - c[0]\<close> of both position columns are binary64
  numbers, the round trip \<open>offsets_to_coords (coords_to_offsets c)\<close> has as many rows as
  \<open>c\<close> and its position at every index \<open>i\<close> is the position of \<open>c\<close> at \<open>i\<close> minus the first
  position of \<open>c\<close>: the sequence translated so that it starts at the origin.
\<close>

theorem offsets_roundtrip_translation:
  assumes "c \<noteq> []"
    and "\<forall>j. 0 < j \<and> j < length c \<longrightarrow>
           representable (px (c ! j) - px (c ! (j - 1)))
         \<and> representable (py (c ! j) - py (c ! (j - 1)))
         \<and> representable (px (c ! j) - px (c ! 0))
         \<and> representable (py (c ! j) - py (c ! 0))"
  shows "\<exists>r. offsets_roundtrip c = Some r
           \<and> length r = length c
           \<and> (\<forall>i < length c. px (r ! i) = px (c ! i) - px (c ! 0)
                            \<and> py (r ! i) = py (c ! i) - py (c ! 0))"
proof -
  obtain x xs where c: "c = x # xs"
    using assms(1) by (cases c) simp_all
  have later: "representable (px a - px x) \<and> representable (py a - py x)" if "a \<in> set xs" for a
  proof -
    from that obtain k where "k < length xs" "a = xs ! k"
      by (auto simp add: in_set_conv_nth)
    then show ?thesis
      using assms(2) [rule_format, of "Suc k"] c by simp
  qed
  have steps: "representable (px a - px b) \<and> representable (py a - py b)"
    if "(a, b) \<in> set (zip xs (butlast (x # xs)))" for a b
  proof -
    from that obtain k where k: "k < length xs" "a = xs ! k" "b = butlast (x # xs) ! k"
      by (auto simp add: in_set_zip)
    have "length (butlast (x # xs)) = length xs"
      by (simp del: butlast.simps)
    then have "k < length (butlast (x # xs))"
      using k(1) by (simp only:)
    then have "butlast (x # xs) ! k = (x # xs) ! k"
      by (rule nth_butlast)
    then show ?thesis
      using assms(2) [rule_format, of "Suc k"] c k by simp
  qed
  let ?d = "map (\<lambda>(a, b). mk_row (px a - px b) (py a - py b) (eos a)) (zip xs (butlast (x # xs)))"
  have d1: "drop 1 c = xs"
    by (simp add: c)
  have "\<forall>(a, b) \<in> set (zip (drop 1 c) (butlast c)).
          representable (px a - px b) \<and> representable (py a - py b)"
    unfolding d1 unfolding c using steps by blast
  then have "coords_to_offsets c =
     Some (mk_row 0 0 1 #
       map (\<lambda>(a, b). mk_row (px a - px b) (py a - py b) (eos a)) (zip (drop 1 c) (butlast c)))"
    by (rule coords_to_offsets_exact)
  then have off: "coords_to_offsets c = Some (mk_row 0 0 1 # ?d)"
    unfolding d1 unfolding c .
  have colx: "map px (mk_row 0 0 1 # ?d) = 0 # map (\<lambda>(a, b). px a - px b) (zip xs (butlast (x # xs)))"
    by (simp add: mk_row_def case_prod_unfold comp_def del: butlast.simps)
  have coly: "map py (mk_row 0 0 1 # ?d) = 0 # map (\<lambda>(a, b). py a - py b) (zip xs (butlast (x # xs)))"
    by (simp add: mk_row_def case_prod_unfold comp_def del: butlast.simps)
  have sx: "cumsum (map px (mk_row 0 0 1 # ?d)) = Some (map (\<lambda>a. px a - px x) (x # xs))"
    unfolding colx using later by (intro cumsum_differences) simp
  have sy: "cumsum (map py (mk_row 0 0 1 # ?d)) = Some (map (\<lambda>a. py a - py x) (x # xs))"
    unfolding coly using later by (intro cumsum_differences) simp
  let ?r = "hstack3 (map (\<lambda>a. px a - px x) (x # xs)) (map (\<lambda>a. py a - py x) (x # xs))
      (map eos (mk_row 0 0 1 # ?d))"
  have conv: "offsets_to_coords (mk_row 0 0 1 # ?d) = Some ?r"
    by (simp only: offsets_to_coords_def sx sy option.case)
  have rt: "offsets_roundtrip c = Some ?r"
    by (simp only: offsets_roundtrip_def off Option.bind_lunit conv)
  have len: "length ?r = length c"
    by (simp add: hstack3_def c)
  have "px (?r ! i) = px (c ! i) - px (c ! 0) \<and> py (?r ! i) = py (c ! i) - py (c ! 0)"
    if "i < length c" for i
  proof -
    have "?r ! i = mk_row (px ((x # xs) ! i) - px x) (py ((x # xs) ! i) - py x)
        (map eos (mk_row 0 0 1 # ?d) ! i)"
      using that c unfolding hstack3_def by (simp del: butlast.simps map_eq_conv add: nth_Cons')
    then show ?thesis
      using c by (simp add: mk_row_def)
  qed
  with rt len show ?thesis
    by blast
qed

lemma representable_small:
  "representable 1" "representable 2" "representable 3" "representable 4" "representable (- 1)"
  using representable_int [of 1] representable_int [of 2] representable_int [of 3]
    representable_int [of 4] representable_int [of "- 1"]
  by simp_all

theorem offsets_roundtrip_translation_witness:
  "[mk_row 1 2 0, mk_row 4 6 1, mk_row 5 5 0] \<noteq> []
   \<and> representable (4 - 1) \<and> representable (6 - 2) \<and> representable (5 - 4)
   \<and> representable (5 - 6) \<and> representable (5 - 1) \<and> representable (5 - 2)
   \<and> (\<exists>r. offsets_roundtrip [mk_row 1 2 0, mk_row 4 6 1, mk_row 5 5 0] = Some r
          \<and> length r = 3
          \<and> px (r ! 2) = 4 \<and> py (r ! 2) = 3)"
proof -
  let ?c = "[mk_row 1 2 0, mk_row 4 6 1, mk_row 5 5 0]"
  have h: "\<forall>j. 0 < j \<and> j < length ?c \<longrightarrow>
           representable (px (?c ! j) - px (?c ! (j - 1)))
         \<and> representable (py (?c ! j) - py (?c ! (j - 1)))
         \<and> representable (px (?c ! j) - px (?c ! 0))
         \<and> representable (py (?c ! j) - py (?c ! 0))"
  proof (intro allI impI)
    fix j :: nat assume "0 < j \<and> j < length ?c"
    then have "j = 1 \<or> j = 2"
      by auto
    then show "representable (px (?c ! j) - px (?c ! (j - 1)))
         \<and> representable (py (?c ! j) - py (?c ! (j - 1)))
         \<and> representable (px (?c ! j) - px (?c ! 0))
         \<and> representable (py (?c ! j) - py (?c ! 0))"
      using representable_small by (auto simp add: mk_row_def)
  qed
  have ne: "?c \<noteq> []"
    by simp
  from offsets_roundtrip_translation [OF ne h]
  obtain r where r: "offsets_roundtrip ?c = Some r" "length r = length ?c"
      "\<forall>i < length ?c. px (r ! i) = px (?c ! i) - px (?c ! 0) \<and> py (r ! i) = py (?c ! i) - py (?c ! 0)"
    by blast
  from r(3) [rule_format, of 2] have "px (r ! 2) = 4 \<and> py (r ! 2) = 3"
    by (simp add: mk_row_def)
  with r(1,2) show ?thesis
    using representable_small by simp
qed

text \<open>
  Without the exactness the claim fails by rounding: on the x values
  \<open>10^16, 1, 2\<close> (all binary64 numbers) the difference \<open>1 - 10^16\<close> rounds to \<open>-10^16\<close> and
  so does the sum \<open>-10^16 + 1\<close>, and the round trip ends at \<open>-10^16\<close> where
  \<open>c[2] - c[0]\<close> is the binary64 number \<open>-9999999999999998\<close>.
\<close>

lemma exp53_even: "\<lfloor>log 2 (9999999999999998::real)\<rfloor> = 53"
  by (simp add: floor_log_eq_powr_iff)

lemma float64_tie: "float64 (- 9999999999999999) = Some (- 10000000000000000)"
  by (simp add: float64_def round_tie)

lemma float64_big: "float64 (- 10000000000000000) = Some (- 10000000000000000)"
  by (simp add: float64_def round_big)

lemma float64_one: "float64 1 = Some 1"
  using representable_small(1) by (simp add: representable_def)

lemma representable_big:
  "representable 10000000000000000" "representable (- 9999999999999998)"
  by (simp_all add: representable_def float64_def round_float64_def exp53' exp53_even
      round_half_even_def Let_def)

theorem offsets_roundtrip_counterexample:
  "representable 10000000000000000 \<and> representable 1 \<and> representable 2 \<and> representable 0
   \<and> offsets_roundtrip [mk_row 10000000000000000 0 0, mk_row 1 0 0, mk_row 2 0 1]
       = Some [mk_row 0 0 1, mk_row (- 10000000000000000) 0 0, mk_row (- 10000000000000000) 0 1]
   \<and> px ([mk_row 10000000000000000 0 0, mk_row 1 0 0, mk_row 2 0 1] ! 2)
       - px ([mk_row 10000000000000000 0 0, mk_row 1 0 0, mk_row 2 0 1] ! 0) = - 9999999999999998
   \<and> representable (- 9999999999999998)
   \<and> (- 10000000000000000 :: real) \<noteq> - 9999999999999998"
proof -
  have off: "coords_to_offsets [mk_row 10000000000000000 0 0, mk_row 1 0 0, mk_row 2 0 1]
      = Some [mk_row 0 0 1, mk_row (- 10000000000000000) 0 0, mk_row 1 0 1]"
    by (simp add: coords_to_offsets_def row_difference_def mk_row_def float64_tie float64_zero
        float64_one)
  have conv: "offsets_to_coords [mk_row 0 0 1, mk_row (- 10000000000000000) 0 0, mk_row 1 0 1]
      = Some [mk_row 0 0 1, mk_row (- 10000000000000000) 0 0, mk_row (- 10000000000000000) 0 1]"
    by (simp add: offsets_to_coords_def cumsum_def hstack3_def mk_row_def float64_tie float64_zero
        float64_big)
  have rt: "offsets_roundtrip [mk_row 10000000000000000 0 0, mk_row 1 0 0, mk_row 2 0 1]
       = Some [mk_row 0 0 1, mk_row (- 10000000000000000) 0 0, mk_row (- 10000000000000000) 0 1]"
    by (simp only: offsets_roundtrip_def off Option.bind_lunit conv)
  have z: "representable 0"
    by (simp add: representable_def float64_zero)
  show ?thesis
    using rt z representable_big representable_small by (simp add: mk_row_def)
qed

text \<open>The empty sequence comes back as the one row put in front.\<close>

lemma offsets_roundtrip_empty: "offsets_roundtrip [] = Some [mk_row 0 0 1]"
  by (simp add: offsets_roundtrip_def coords_to_offsets_def offsets_to_coords_def cumsum_def
      hstack3_def mk_row_def)

section \<open>Zero rows of a sample\<close>

lemma boolean_index_map: "boolean_index xs (map P xs) = filter P xs"
  by (induction xs) (simp_all add: boolean_index_def)

lemma strip_zero_rows_filter: "strip_zero_rows sample = filter (\<lambda>r. \<not> all_zero r) sample"
proof -
  have "map (\<lambda>b. \<not> b) (map all_zero sample) = map (\<lambda>r. \<not> all_zero r) sample"
    by simp
  then show ?thesis
    unfolding strip_zero_rows_def by (simp only: boolean_index_map)
qed

text \<open>
  Claim C6, as amended. The filter removes every row that is zero in all three fields,
  wherever it stands, and keeps all other rows in their order; in particular, for data
  without an all-zero row followed by any number of all-zero padding rows, exactly the
  padding is removed.
\<close>

theorem strip_zero_rows_everywhere:
  "strip_zero_rows sample = filter (\<lambda>r. \<not> all_zero r) sample
   \<and> ((\<forall>r \<in> set data. \<not> all_zero r) \<longrightarrow>
        strip_zero_rows (data @ replicate n (mk_row 0 0 0)) = data)"
proof (intro conjI impI)
  show "strip_zero_rows sample = filter (\<lambda>r. \<not> all_zero r) sample"
    by (rule strip_zero_rows_filter)
next
  assume nz: "\<forall>r \<in> set data. \<not> all_zero r"
  have z: "all_zero (mk_row 0 0 0)"
    by (simp add: all_zero_def mk_row_def)
  have "filter (\<lambda>r. \<not> all_zero r) data = data"
    using nz by (simp add: filter_id_conv)
  moreover have "filter (\<lambda>r. \<not> all_zero r) (replicate n (mk_row 0 0 0)) = []"
    using z by simp
  ultimately show "strip_zero_rows (data @ replicate n (mk_row 0 0 0)) = data"
    by (simp add: strip_zero_rows_filter)
qed

theorem strip_zero_rows_everywhere_witness:
  "(\<not> all_zero (mk_row 1 0 0) \<and> \<not> all_zero (mk_row 2 0 1))
   \<and> strip_zero_rows [mk_row 1 0 0, mk_row 2 0 1, mk_row 0 0 0, mk_row 0 0 0]
       = [mk_row 1 0 0, mk_row 2 0 1]
   \<and> strip_zero_rows [mk_row 0 0 0, mk_row 0 0 1]
       = filter (\<lambda>r. \<not> all_zero r) [mk_row 0 0 0, mk_row 0 0 1]"
  using strip_zero_rows_everywhere [of "[mk_row 0 0 0, mk_row 0 0 1]"
      "[mk_row 1 0 0, mk_row 2 0 1]" 2]
  by (simp add: all_zero_def mk_row_def numeral_2_eq_2)

text \<open>
  The claim as worded fails on an array with an all-zero row in its interior: the filter
  drops that row and keeps the rows after it, which is neither cutting at the first
  all-zero row nor removing only the all-zero rows at the end.
\<close>

theorem strip_zero_rows_counterexample:
  "strip_zero_rows [mk_row 1 0 0, mk_row 0 0 0, mk_row 2 0 1, mk_row 0 0 0]
     = [mk_row 1 0 0, mk_row 2 0 1]
   \<and> spec_truncate_at_first_zero [mk_row 1 0 0, mk_row 0 0 0, mk_row 2 0 1, mk_row 0 0 0]
     = [mk_row 1 0 0]
   \<and> spec_strip_trailing_zeros [mk_row 1 0 0, mk_row 0 0 0, mk_row 2 0 1, mk_row 0 0 0]
     = [mk_row 1 0 0, mk_row 0 0 0, mk_row 2 0 1]
   \<and> strip_zero_rows [mk_row 1 0 0, mk_row 0 0 0, mk_row 2 0 1, mk_row 0 0 0]
     \<noteq> spec_truncate_at_first_zero [mk_row 1 0 0, mk_row 0 0 0, mk_row 2 0 1, mk_row 0 0 0]
   \<and> strip_zero_rows [mk_row 1 0 0, mk_row 0 0 0, mk_row 2 0 1, mk_row 0 0 0]
     \<noteq> spec_strip_trailing_zeros [mk_row 1 0 0, mk_row 0 0 0, mk_row 2 0 1, mk_row 0 0 0]"
  by (simp add: strip_zero_rows_def boolean_index_def spec_truncate_at_first_zero_def
      spec_strip_trailing_zeros_def all_zero_def mk_row_def)

section \<open>Validation\<close>









section \<open>Encoding\<close>

lemma fold_update_other:
  "c \<notin> snd ` set ps \<Longrightarrow> fold (\<lambda>(i, k) d. d(k \<mapsto> i)) ps d c = d c"
  by (induction ps arbitrary: d) (auto simp add: case_prod_unfold)

lemma alpha_to_num_outside: "c \<notin> set alphabet \<Longrightarrow> alpha_to_num c = None"
proof -
  assume c: "c \<notin> set alphabet"
  have "snd ` set (zip [0..<length alphabet] alphabet) = set alphabet"
    using map_snd_zip [of "[0..<length alphabet]" alphabet] set_map [of snd "zip [0..<length alphabet] alphabet"]
    by simp
  with c have "c \<notin> snd ` set (zip [0..<length alphabet] alphabet)"
    by simp
  then show ?thesis
    using fold_update_other [of c "zip [0..<length alphabet] alphabet" Map.empty]
    by (simp add: alpha_to_num_def)
qed

lemma defaults_only_initial: "defaults_only alpha_to_num"
  by (simp add: defaults_only_def alpha_to_num_outside)

lemma getitem_default_outside:
  "defaults_only d \<Longrightarrow> c \<notin> set alphabet \<Longrightarrow> fst (getitem_default d c) = 0"
  by (auto simp add: defaults_only_def getitem_default_def split: option.splits)

lemma getitem_default_keeps: "defaults_only d \<Longrightarrow> defaults_only (snd (getitem_default d c))"
  by (auto simp add: defaults_only_def getitem_default_def split: option.splits)

lemma encode_chars_props:
  "defaults_only d \<Longrightarrow>
     length (fst (encode_chars d s)) = length s
   \<and> (\<forall>i < length s. s ! i \<notin> set alphabet \<longrightarrow> fst (encode_chars d s) ! i = 0)
   \<and> defaults_only (snd (encode_chars d s))"
proof (induction s arbitrary: d)
  case Nil
  then show ?case by simp
next
  case (Cons x s)
  let ?d1 = "snd (getitem_default d x)"
  have d1: "defaults_only ?d1"
    using Cons.prems by (rule getitem_default_keeps)
  note ih = Cons.IH [OF d1]
  have unfold: "encode_chars d (x # s)
      = (fst (getitem_default d x) # fst (encode_chars ?d1 s), snd (encode_chars ?d1 s))"
    by (simp add: case_prod_unfold Let_def)
  have "\<forall>i < length (x # s). (x # s) ! i \<notin> set alphabet \<longrightarrow> fst (encode_chars d (x # s)) ! i = 0"
  proof (intro allI impI)
    fix i assume i: "i < length (x # s)" and out: "(x # s) ! i \<notin> set alphabet"
    show "fst (encode_chars d (x # s)) ! i = 0"
    proof (cases i)
      case 0
      with out Cons.prems show ?thesis
        by (simp add: unfold getitem_default_outside del: encode_chars.simps)
    next
      case (Suc k)
      with i out ih show ?thesis
        by (simp add: unfold del: encode_chars.simps)
    qed
  qed
  with ih show ?case
    by (simp add: unfold del: encode_chars.simps)
qed

text \<open>
  Claim C10. The dictionary starts in a state where no key outside the alphabet is stored
  with a nonzero value, and reads keep it so. In every such state and for every string
  \<open>s\<close>, \<open>encode_ascii\<close> returns (it raises nothing) a sequence one longer than \<open>s\<close>
  whose last element is 0, and at every position where \<open>s\<close> has a character outside the
  alphabet the sequence has 0.
\<close>

theorem encode_ascii_terminated:
  "defaults_only alpha_to_num
   \<and> (defaults_only d \<longrightarrow>
         length (fst (encode_ascii d s)) = length s + 1
       \<and> last (fst (encode_ascii d s)) = 0
       \<and> (\<forall>i < length s. s ! i \<notin> set alphabet \<longrightarrow> fst (encode_ascii d s) ! i = 0)
       \<and> defaults_only (snd (encode_ascii d s)))"
proof (intro conjI impI)
  show "defaults_only alpha_to_num"
    by (rule defaults_only_initial)
next
  assume d: "defaults_only d"
  note p = encode_chars_props [OF d, of s]
  have e: "encode_ascii d s = (fst (encode_chars d s) @ [0], snd (encode_chars d s))"
    by (simp add: encode_ascii_def case_prod_unfold Let_def)
  show "length (fst (encode_ascii d s)) = length s + 1"
    using p by (simp add: e)
  show "last (fst (encode_ascii d s)) = 0"
    by (simp add: e)
  show "\<forall>i < length s. s ! i \<notin> set alphabet \<longrightarrow> fst (encode_ascii d s) ! i = 0"
    using p by (simp add: e nth_append)
  show "defaults_only (snd (encode_ascii d s))"
    using p by (simp add: e)
qed

theorem encode_ascii_terminated_witness:
  "defaults_only alpha_to_num
   \<and> length (fst (encode_ascii alpha_to_num [72, 19990, 105])) = 4
   \<and> last (fst (encode_ascii alpha_to_num [72, 19990, 105])) = 0
   \<and> (1::nat) < length [72, 19990, 105 :: nat]
   \<and> [72, 19990, 105] ! 1 \<notin> set alphabet
   \<and> fst (encode_ascii alpha_to_num [72, 19990, 105]) ! 1 = 0
   \<and> defaults_only (snd (encode_ascii alpha_to_num [72, 19990, 105]))"
proof -
  have out: "(19990::nat) \<notin> set alphabet"
    by (simp add: alphabet_def)
  note t = encode_ascii_terminated [of alpha_to_num "[72, 19990, 105]"]
  from t have "fst (encode_ascii alpha_to_num [72, 19990, 105]) ! 1 = 0"
    using out by simp
  with t out show ?thesis by simp
qed

text \<open>The table has 73 symbols without repetition; \<open>a\<close> is number 47.\<close>

lemma alphabet_values: "alphabet ! 47 = 97" "length alphabet = 73" "distinct alphabet"
  by (simp_all add: alphabet_def)

section \<open>Splitting into strokes\<close>

lemma slice_append:
  assumes "a \<le> b" and "b \<le> c"
  shows "slice a b xs @ slice b c xs = slice a c xs"
proof -
  have d: "drop b xs = drop (b - a) (drop a xs)"
    using assms(1) by simp
  have "c - a = (b - a) + (c - b)"
    using assms by simp
  then have "take (c - a) (drop a xs)
      = take (b - a) (drop a xs) @ take (c - b) (drop (b - a) (drop a xs))"
    by (simp only: take_add)
  then show ?thesis
    unfolding slice_def by (simp only: d)
qed

lemma slice_empty: "slice a a xs = []"
  by (simp add: slice_def)

lemma concat_pieces:
  "sorted (a # ps) \<Longrightarrow>
   concat (map (\<lambda>(st, end). slice st end xs) (zip (a # ps) ps)) = slice a (last (a # ps)) xs"
proof (induction ps arbitrary: a)
  case Nil
  show ?case by (simp add: slice_empty)
next
  case (Cons p ps)
  have ab: "a \<le> p" and s: "sorted (p # ps)"
    using Cons.prems by simp_all
  have pl: "p \<le> last (p # ps)"
    using s by (metis last_in_set list.distinct(1) list.sel(1) list.set_cases order_refl sorted_simps(2))
  have "concat (map (\<lambda>(st, end). slice st end xs) (zip (a # p # ps) (p # ps)))
      = slice a p xs @ concat (map (\<lambda>(st, end). slice st end xs) (zip (p # ps) ps))"
    by simp
  also have "\<dots> = slice a p xs @ slice p (last (p # ps)) xs"
    by (simp only: Cons.IH [OF s])
  also have "\<dots> = slice a (last (p # ps)) xs"
    using ab pl by (rule slice_append)
  finally show ?case by simp
qed

lemma concat_np_split:
  assumes "sorted indices" and "\<forall>i \<in> set indices. i \<le> length ary"
  shows "concat (np_split ary indices) = ary"
proof -
  have s: "sorted (0 # indices @ [length ary])"
    using assms by (simp add: sorted_append)
  have "concat (np_split ary indices)
      = slice 0 (last (0 # indices @ [length ary])) ary"
    unfolding np_split_def Let_def list.sel using concat_pieces [OF s, of ary] by simp
  then show ?thesis
    by (simp add: slice_def)
qed

lemma stroke_ends_bound: "i \<in> set (stroke_ends coords) \<Longrightarrow> i < length coords"
  by (simp add: stroke_ends_def)

lemma concat_split_strokes: "concat (split_strokes coords) = coords"
proof -
  have "sorted_wrt (<) (stroke_ends coords)"
    by (simp add: stroke_ends_def sorted_wrt_filter)
  then have "sorted (stroke_ends coords)"
    by (rule strict_sorted_imp_sorted)
  then have a: "sorted (map (\<lambda>i. i + 1) (stroke_ends coords))"
    by (simp add: sorted_map sorted_wrt_mono_rel [of _ "(\<le>)"])
  have b: "\<forall>i \<in> set (map (\<lambda>i. i + 1) (stroke_ends coords)). i \<le> length coords"
    using stroke_ends_bound [of _ coords] by (auto simp add: Suc_le_eq)
  show ?thesis
    unfolding split_strokes_def by (rule concat_np_split [OF a b])
qed

section \<open>Messiness: shape and end-of-stroke column\<close>

lemma length_map_px: "length (map_px f s) = length s" by (simp add: map_px_def)
lemma length_map_py: "length (map_py f s) = length s" by (simp add: map_py_def)
lemma eos_map_px: "map eos (map_px f s) = map eos s" by (simp add: map_px_def)
lemma eos_map_py: "map eos (map_py f s) = map eos s" by (simp add: map_py_def)

lemma eos_set_px: "length vs = length s \<Longrightarrow> map eos (set_px vs s) = map eos s"
  by (induction vs s rule: list_induct2) (simp_all add: set_px_def)

lemma eos_set_py: "length vs = length s \<Longrightarrow> map eos (set_py vs s) = map eos s"
  by (induction vs s rule: list_induct2) (simp_all add: set_py_def)

lemma eos_add_xy: "length noise = length s \<Longrightarrow> map eos (add_xy noise s) = map eos s"
  by (induction noise s rule: list_induct2) (simp_all add: add_xy_def case_prod_unfold)

lemma length_normal_rows: "length (fst (normal_rows loc scale n g)) = n"
  by (induction n arbitrary: g) (simp_all add: case_prod_unfold Let_def)

lemma length_set_px: "length vs = length s \<Longrightarrow> length (set_px vs s) = length s"
  by (simp add: set_px_def)

lemma eos_rotate_stroke: "map eos (rotate_stroke a s) = map eos s"
  by (simp add: rotate_stroke_def Let_def eos_set_py eos_set_px eos_map_py eos_map_px
      length_map_px length_map_py length_set_px)

lemma eos_forward_lean: "map eos (fst (forward_lean nf rf s g)) = map eos s"
  by (simp add: forward_lean_def Let_def case_prod_unfold eos_rotate_stroke)

lemma eos_baseline_drift: "map eos (fst (baseline_drift nf rf s g)) = map eos s"
  by (simp add: baseline_drift_def Let_def case_prod_unfold eos_map_py)

lemma eos_height_variation: "map eos (fst (height_variation nf rf s g)) = map eos s"
  by (simp add: height_variation_def Let_def case_prod_unfold eos_map_py)

lemma eos_horizontal_compression: "map eos (horizontal_compression nf rf s) = map eos s"
  by (simp add: horizontal_compression_def Let_def eos_map_px)

lemma eos_pressure_fluctuation: "map eos (fst (pressure_fluctuation nf rf s g)) = map eos s"
  by (simp add: pressure_fluctuation_def Let_def case_prod_unfold eos_add_xy length_normal_rows)

lemma eos_messy_stroke: "map eos (fst (messy_stroke nf rf s g)) = map eos s"
  by (simp add: messy_stroke_def Let_def case_prod_unfold eos_pressure_fluctuation
      eos_horizontal_compression eos_height_variation eos_baseline_drift eos_forward_lean)

lemma eos_assign_slice:
  assumes "start \<le> end" and "map eos new = map eos (slice start end xs)"
  shows "map eos (assign_slice start end new xs) = map eos xs"
proof -
  have "drop (end - start) (drop start xs) = drop end xs"
    using assms(1) by (simp only: drop_drop) simp
  then have "slice start end xs @ drop end xs = drop start xs"
    unfolding slice_def using append_take_drop_id [of "end - start" "drop start xs"] by simp
  then have "take start xs @ slice start end xs @ drop end xs = xs"
    by simp
  then have "map eos (take start xs @ slice start end xs @ drop end xs) = map eos xs"
    by simp
  then show ?thesis
    using assms(2) by (simp add: assign_slice_def)
qed

lemma eos_stroke_loop:
  assumes "\<forall>(a, b) \<in> set segs. a \<le> b"
  shows "map eos (fst (stroke_loop nf rf segs coords g)) = map eos coords"
  using assms
proof (induction nf rf segs coords g rule: stroke_loop.induct)
  case (1 nf rf coords g)
  show ?case by simp
next
  case (2 nf rf start "end" rest coords g)
  let ?s = "slice start end coords"
  show ?case
  proof (cases "length ?s < 2")
    case True
    with 2 show ?thesis by simp
  next
    case False
    obtain s' g' where m: "messy_stroke nf rf ?s g = (s', g')"
      by (cases "messy_stroke nf rf ?s g")
    have "map eos s' = map eos ?s"
      using eos_messy_stroke [of nf rf ?s g] m by simp
    moreover have "start \<le> end"
      using 2(3) by simp
    ultimately have keep: "map eos (assign_slice start end s' coords) = map eos coords"
      by (rule eos_assign_slice [rotated])
    have "map eos (fst (stroke_loop nf rf rest (assign_slice start end s' coords) g'))
            = map eos (assign_slice start end s' coords)"
      using 2(2) [OF refl False m [symmetric]] 2(3) by simp
    with keep False m show ?thesis by simp
  qed
qed

lemma eos_shift_from:
  "map eos (take start coords @
      map (\<lambda>p. \<lparr>px = px p + t, py = py p + 0, eos = eos p + 0\<rparr>) (drop start coords))
   = map eos coords"
proof -
  have "map eos (map (\<lambda>p. \<lparr>px = px p + t, py = py p + 0, eos = eos p + 0\<rparr>) (drop start coords))
      = map eos (drop start coords)"
    by (simp add: comp_def)
  then have "map eos (take start coords @
      map (\<lambda>p. \<lparr>px = px p + t, py = py p + 0, eos = eos p + 0\<rparr>) (drop start coords))
     = map eos (take start coords @ drop start coords)"
    by (simp only: map_append)
  then show ?thesis by (simp only: append_take_drop_id)
qed

lemma eos_spacing_loop: "map eos (fst (spacing_loop nf rf starts coords g)) = map eos coords"
proof (induction nf rf starts coords g rule: spacing_loop.induct)
  case (1 nf rf coords g)
  show ?case by simp
next
  case (2 nf rf start rest coords g)
  obtain u1 g1 where d1: "uniform (- 2) 4 g = (u1, g1)"
    by (cases "uniform (- 2) 4 g")
  obtain u2 g2 where d2: "uniform (- 4) 8 g1 = (u2, g2)"
    by (cases "uniform (- 4) 8 g1")
  let ?c = "take start coords @
      map (\<lambda>p. \<lparr>px = px p + (nf * u1 + rf * u2), py = py p + 0, eos = eos p + 0\<rparr>)
        (drop start coords)"
  have "map eos (fst (spacing_loop nf rf rest ?c g2)) = map eos ?c"
    by (rule 2 [OF refl d1 [symmetric] refl refl d2 [symmetric] refl refl])
  also have "\<dots> = map eos coords"
    by (rule eos_shift_from)
  finally show ?case
    using d1 d2 by (simp add: Let_def)
qed

lemma eos_drift_loop: "map eos (drift_loop a r idxs coords) = map eos coords"
proof (induction a r idxs coords rule: drift_loop.induct)
  case (1 a r coords)
  show ?case by simp
next
  case (2 a r i rest coords)
  have "map eos (coords[i := (coords ! i)\<lparr>py := v\<rparr>]) = map eos coords" for v
  proof (cases "i < length coords")
    case True
    then have "(map eos coords)[i := map eos coords ! i] = map eos coords"
      by (simp only: list_update_id)
    with True show ?thesis by (simp add: map_update)
  next
    case False
    then have "length coords \<le> i" by simp
    then show ?thesis by (simp only: list_update_beyond)
  qed
  with 2 show ?case by (simp add: Let_def)
qed

lemma eos_global_drift: "map eos (fst (global_drift rf coords g)) = map eos coords"
  by (simp add: global_drift_def Let_def case_prod_unfold eos_drift_loop)

lemma segments_ordered:
  assumes "sorted_wrt (<) es" and "\<forall>e \<in> set es. k \<le> Suc e"
  shows "\<forall>(a, b) \<in> set (zip (k # map Suc (butlast es)) (map Suc es)). a \<le> b"
  using assms
proof (induction es arbitrary: k)
  case Nil
  show ?case by simp
next
  case (Cons e es)
  show ?case
  proof (cases es)
    case Nil
    with Cons.prems show ?thesis by simp
  next
    case (Cons e' es')
    have "\<forall>(a, b) \<in> set (zip (Suc e # map Suc (butlast es)) (map Suc es)). a \<le> b"
      using Cons.prems Cons.IH [of "Suc e"] by (simp add: less_imp_le)
    with Cons Cons.prems show ?thesis by simp
  qed
qed

lemma sorted_stroke_ends: "sorted_wrt (<) (stroke_ends coords)"
  by (simp add: stroke_ends_def sorted_wrt_filter)

lemma stroke_segments_ordered:
  "\<forall>(a, b) \<in> set (zip (stroke_starts coords) (map (\<lambda>e. e + 1) (stroke_ends coords))). a \<le> b"
  using segments_ordered [OF sorted_stroke_ends, of coords 0]
  by (simp add: stroke_starts_def)

lemma eos_add_messiness: "map eos (fst (add_messiness coords mf g)) = map eos coords"
proof (cases "mf \<le> 0")
  case True
  then show ?thesis by (simp add: add_messiness_def)
next
  case False
  let ?nf = "normal_factor mf" and ?rf = "rush_factor mf"
  let ?segs = "zip (stroke_starts coords) (map (\<lambda>e. e + 1) (stroke_ends coords))"
  obtain c1 g1 where s1: "stroke_loop ?nf ?rf ?segs coords g = (c1, g1)"
    by (cases "stroke_loop ?nf ?rf ?segs coords g")
  obtain c2 g2 where s2:
    "(if length (stroke_starts coords) > 1
      then spacing_loop ?nf ?rf (tl (stroke_starts coords)) c1 g1 else (c1, g1)) = (c2, g2)"
    by (cases "if length (stroke_starts coords) > 1
      then spacing_loop ?nf ?rf (tl (stroke_starts coords)) c1 g1 else (c1, g1)")
  have segs: "\<forall>(a, b) \<in> set ?segs. a \<le> b"
    by (rule stroke_segments_ordered)
  have "map eos (fst (stroke_loop ?nf ?rf ?segs coords g)) = map eos coords"
    by (rule eos_stroke_loop [OF segs])
  then have e1: "map eos c1 = map eos coords"
    using s1 by simp
  have e2: "map eos c2 = map eos c1"
    using eos_spacing_loop [of ?nf ?rf "tl (stroke_starts coords)" c1 g1] s2
    by (simp split: if_splits)
  have "add_messiness coords mf g = global_drift ?rf c2 g2"
    using False s1 s2 by (simp add: add_messiness_def Let_def del: One_nat_def)
  then show ?thesis
    using e1 e2 by (simp add: eos_global_drift)
qed

text \<open>
  Claim C1. When the level is at most zero, \<open>add_messiness\<close> returns its argument as it is:
  every row and every field is the input's, and the generator is not advanced.
\<close>

theorem add_messiness_level_zero:
  assumes "messiness_factor \<le> 0"
  shows "add_messiness coords messiness_factor g = (coords, g)"
  using assms by (simp add: add_messiness_def)

theorem add_messiness_level_zero_witness:
  "(0::real) \<le> 0
   \<and> add_messiness [mk_row 0 0 0, mk_row 10 0 0, mk_row 20 5 1] 0 (\<lambda>n. 1 / 2)
       = ([mk_row 0 0 0, mk_row 10 0 0, mk_row 20 5 1], \<lambda>n. 1 / 2)"
  using add_messiness_level_zero [of 0 "[mk_row 0 0 0, mk_row 10 0 0, mk_row 20 5 1]" "\<lambda>n. 1 / 2"]
  by simp

text \<open>
  Claim C2. For every coordinate sequence, every level (in particular every level between
  0 and 1.5) and every generator state, the result of \<open>add_messiness\<close> has as many rows
  as the input, and its end-of-stroke column is the input's, entry by entry. (The number
  of columns is fixed by the row type.)
\<close>

theorem add_messiness_shape_eos:
  "length (fst (add_messiness coords messiness_factor g)) = length coords
   \<and> map eos (fst (add_messiness coords messiness_factor g)) = map eos coords"
proof -
  have e: "map eos (fst (add_messiness coords messiness_factor g)) = map eos coords"
    by (rule eos_add_messiness)
  from e have "length (fst (add_messiness coords messiness_factor g)) = length coords"
    by (rule map_eq_imp_length_eq)
  with e show ?thesis
    by (rule conjI [rotated])
qed

section \<open>Smoothing keeps the stroke boundaries\<close>

lemma length_savgol_filter: "length (savgol_filter v) = length v"
  by (simp add: savgol_filter_def)

lemma eos_hstack3:
  "length xs = length es \<Longrightarrow> length ys = length es \<Longrightarrow> map eos (hstack3 xs ys es) = es"
proof (induction es arbitrary: xs ys)
  case Nil
  then show ?case by (simp add: hstack3_def)
next
  case (Cons e es)
  then obtain x xs' y ys' where "xs = x # xs'" "ys = y # ys'"
    by (metis length_Suc_conv)
  with Cons show ?case
    by (simp add: hstack3_def mk_row_def)
qed

lemma eos_denoise_loop: "map eos (concat (denoise_loop pieces)) = map eos (concat pieces)"
  by (induction pieces) (simp_all add: Let_def eos_hstack3 length_savgol_filter)

lemma denoise_loop_no_empty: "[] \<notin> set (denoise_loop pieces)"
proof (induction pieces)
  case Nil
  show ?case by simp
next
  case (Cons s pieces)
  have "hstack3 (savgol_filter (map px s)) (savgol_filter (map py s)) (map eos s) \<noteq> []" if "s \<noteq> []"
  proof -
    have "map eos (hstack3 (savgol_filter (map px s)) (savgol_filter (map py s)) (map eos s))
        = map eos s"
      by (simp add: eos_hstack3 length_savgol_filter)
    with that show ?thesis by auto
  qed
  with Cons show ?case by (auto simp add: Let_def)
qed

lemma denoise_loop_nonempty: "concat pieces \<noteq> [] \<Longrightarrow> denoise_loop pieces \<noteq> []"
  by (induction pieces) (auto simp add: Let_def)

text \<open>
  Claim C8. For every non-empty coordinate sequence \<open>denoise\<close> returns a sequence (it
  raises nothing, whatever the lengths of the strokes, also below the window of seven
  points); the result has as many rows as the input and the same end-of-stroke column, so
  the lifts of the pen are as many as before and at the same positions; and no empty piece
  is among the pieces put together.
\<close>

theorem denoise_keeps_boundaries:
  assumes "coords \<noteq> []"
  shows "\<exists>new_coords.
           denoise coords = Inr new_coords
         \<and> length new_coords = length coords
         \<and> map eos new_coords = map eos coords
         \<and> stroke_ends new_coords = stroke_ends coords
         \<and> [] \<notin> set (denoise_loop (split_strokes coords))"
proof -
  let ?new = "concat (denoise_loop (split_strokes coords))"
  have ne: "denoise_loop (split_strokes coords) \<noteq> []"
    using assms by (intro denoise_loop_nonempty) (simp add: concat_split_strokes)
  then have d: "denoise coords = Inr ?new"
    by (simp add: denoise_def np_vstack_def)
  have e: "map eos ?new = map eos coords"
    by (simp add: eos_denoise_loop concat_split_strokes)
  then have l: "length ?new = length coords"
    by (rule map_eq_imp_length_eq)
  have "eos (?new ! i) = eos (coords ! i)" if "i < length coords" for i
    using that e l by (metis nth_map)
  then have se: "stroke_ends ?new = stroke_ends coords"
    unfolding stroke_ends_def l by (intro filter_cong) simp_all
  show ?thesis
    using d e l se denoise_loop_no_empty by blast
qed

theorem denoise_keeps_boundaries_witness:
  "[mk_row 0 0 0, mk_row 1 1 1, mk_row 2 0 1] \<noteq> []
   \<and> (\<exists>new_coords.
          denoise [mk_row 0 0 0, mk_row 1 1 1, mk_row 2 0 1] = Inr new_coords
        \<and> length new_coords = 3
        \<and> map eos new_coords = [0, 1, 1])"
  using denoise_keeps_boundaries [of "[mk_row 0 0 0, mk_row 1 1 1, mk_row 2 0 1]"]
  by (auto simp add: mk_row_def)

section \<open>Resampling\<close>

lemma linspace_length:
  "0 \<le> num \<Longrightarrow> \<exists>y. linspace start stop num = Inr y \<and> length y = nat num"
  by (simp add: linspace_def Let_def)

lemma resample_long:
  assumes "1 \<le> factor" and "3 < length stroke"
  shows "\<exists>xy. resample cubic factor stroke = Inr xy \<and> length xy = nat factor * length stroke"
proof -
  let ?num = "factor * int (length stroke)"
  have n: "0 \<le> ?num"
    using assms by simp
  obtain y where y: "linspace 0 (real (length stroke) - 1) ?num = Inr y" "length y = nat ?num"
    using linspace_length [OF n] by blast
  have "nat ?num = nat factor * length stroke"
    using assms by (simp add: nat_mult_distrib)
  with y assms(2) show ?thesis
    by (simp add: resample_def)
qed

lemma resample_short:
  "\<not> 3 < length stroke \<Longrightarrow> resample cubic factor stroke = Inr (map (\<lambda>p. (px p, py p)) stroke)"
  by (simp add: resample_def)

lemma replicate_last_update:
  "0 < n \<Longrightarrow> (replicate n (0::real))[n - 1 := 1] = eos_column n"
proof -
  assume "0 < n"
  then obtain m where m: "n = Suc m"
    by (cases n) simp_all
  have "(replicate (Suc m) (0::real))[m := 1] = replicate m 0 @ [1]"
    by (induction m) simp_all
  with m show ?thesis
    by (simp add: eos_column_def)
qed

lemma length_eos_column: "0 < n \<Longrightarrow> length (eos_column n) = n"
  by (simp add: eos_column_def)

lemma columns_of_rows:
  "length xy = length es \<Longrightarrow>
     map px (map (\<lambda>((a, b), e). mk_row a b e) (zip xy es)) = map fst xy
   \<and> map py (map (\<lambda>((a, b), e). mk_row a b e) (zip xy es)) = map snd xy
   \<and> map eos (map (\<lambda>((a, b), e). mk_row a b e) (zip xy es)) = es"
  by (induction xy es rule: list_induct2) (simp_all add: mk_row_def case_prod_unfold)

lemma terminate_rows:
  assumes "xy \<noteq> []"
  shows "\<exists>new_stroke. terminate xy = Inr new_stroke
           \<and> map px new_stroke = map fst xy
           \<and> map py new_stroke = map snd xy
           \<and> map eos new_stroke = eos_column (length xy)"
proof -
  have n: "0 < length xy"
    using assms by simp
  have t: "terminate xy
      = Inr (map (\<lambda>((a, b), e). mk_row a b e) (zip xy (eos_column (length xy))))"
    using assms replicate_last_update [OF n] by (simp add: terminate_def Let_def)
  show ?thesis
    unfolding t using columns_of_rows [of xy "eos_column (length xy)"] length_eos_column [OF n]
    by simp
qed

lemma rows_equal:
  fixes a b :: coords
  assumes "map px a = map px b" and "map py a = map py b" and "map eos a = map eos b"
  shows "a = b"
proof (rule nth_equalityI)
  show len: "length a = length b"
    using assms(1) by (rule map_eq_imp_length_eq)
  fix i assume i: "i < length a"
  have "px (a ! i) = px (b ! i)"
    using assms(1) i len by (metis nth_map)
  moreover have "py (a ! i) = py (b ! i)"
    using assms(2) i len by (metis nth_map)
  moreover have "eos (a ! i) = eos (b ! i)"
    using assms(3) i len by (metis nth_map)
  ultimately show "a ! i = b ! i"
    by simp
qed

lemma interpolate_stroke_resampled:
  assumes "1 \<le> factor" and "stroke \<noteq> []"
  shows "\<exists>new_stroke. interpolate_stroke cubic factor stroke = Inr new_stroke
           \<and> resampled factor stroke new_stroke"
proof (cases "3 < length stroke")
  case True
  obtain xy where xy: "resample cubic factor stroke = Inr xy"
      "length xy = nat factor * length stroke"
    using resample_long [OF assms(1) True] by blast
  have "0 < nat factor" "0 < length stroke"
    using assms by simp_all
  then have "0 < nat factor * length stroke"
    by simp
  then have "xy \<noteq> []"
    using xy(2) by auto
  from terminate_rows [OF this] obtain new_stroke where ns:
      "terminate xy = Inr new_stroke" "map px new_stroke = map fst xy"
      "map eos new_stroke = eos_column (length xy)"
    by blast
  have "length new_stroke = length xy"
    using ns(2) by (metis length_map)
  with xy ns True show ?thesis
    by (simp add: interpolate_stroke_def resampled_def)
next
  case False
  let ?xy = "map (\<lambda>p. (px p, py p)) stroke"
  have "?xy \<noteq> []"
    using assms(2) by simp
  from terminate_rows [OF this] obtain new_stroke where ns:
      "terminate ?xy = Inr new_stroke" "map px new_stroke = map fst ?xy"
      "map py new_stroke = map snd ?xy" "map eos new_stroke = eos_column (length ?xy)"
    by blast
  have cols: "map px new_stroke = map px stroke" "map py new_stroke = map py stroke"
      "map eos new_stroke = eos_column (length stroke)"
    using ns by (simp_all add: comp_def)
  have "new_stroke = stroke" if "map eos stroke = eos_column (length stroke)"
    using cols that by (intro rows_equal) simp_all
  with False ns(1) cols show ?thesis
    by (simp add: interpolate_stroke_def resampled_def resample_short)
qed

lemma interpolate_loop_resampled:
  assumes "1 \<le> factor"
  shows "\<exists>new_coords. interpolate_loop cubic factor pieces = Inr new_coords
           \<and> list_all2 (resampled factor) (filter (\<lambda>s. s \<noteq> []) pieces) new_coords"
proof (induction pieces)
  case Nil
  show ?case by simp
next
  case (Cons s pieces)
  from Cons obtain rest where rest: "interpolate_loop cubic factor pieces = Inr rest"
      "list_all2 (resampled factor) (filter (\<lambda>s. s \<noteq> []) pieces) rest"
    by blast
  show ?case
  proof (cases "s = []")
    case True
    with rest show ?thesis by simp
  next
    case False
    from interpolate_stroke_resampled [OF assms False] obtain new_stroke where
        "interpolate_stroke cubic factor s = Inr new_stroke" "resampled factor s new_stroke"
      by blast
    with rest False show ?thesis by simp
  qed
qed

text \<open>
  Claim C7, as amended. For every non-empty coordinate sequence and every integer factor
  \<open>k \<ge> 1\<close>, \<open>interpolate\<close> returns the images of the non-empty pieces of the input, in
  order and put together, where the pieces are the strokes the input is cut into (put
  together they give the input back). A piece of \<open>L > 3\<close> points has an image of \<open>k * L\<close>
  points; a piece of \<open>L \<le> 3\<close> points has an image with the same positions; in both cases
  the end-of-stroke column of the image is rebuilt: zero everywhere but 1 on the last point.
  So a piece of \<open>L \<le> 3\<close> points whose column has that form already is passed through
  unchanged.
\<close>

theorem interpolate_resamples:
  assumes "1 \<le> factor" and "coords \<noteq> []"
  shows "concat (split_strokes coords) = coords
       \<and> (\<exists>new_coords.
             interpolate cubic coords factor = Inr (concat new_coords)
           \<and> list_all2 (resampled factor) (filter (\<lambda>s. s \<noteq> []) (split_strokes coords)) new_coords)"
proof -
  obtain new_coords where nc:
      "interpolate_loop cubic factor (split_strokes coords) = Inr new_coords"
      "list_all2 (resampled factor) (filter (\<lambda>s. s \<noteq> []) (split_strokes coords)) new_coords"
    using interpolate_loop_resampled [OF assms(1)] by blast
  have "concat (split_strokes coords) \<noteq> []"
    using assms(2) concat_split_strokes [of coords] by simp
  then have "filter (\<lambda>s. s \<noteq> []) (split_strokes coords) \<noteq> []"
    by (auto simp add: filter_empty_conv)
  with nc(2) have "new_coords \<noteq> []"
    by auto
  with nc(1) have "interpolate cubic coords factor = Inr (concat new_coords)"
    by (simp add: interpolate_def np_vstack_def)
  with nc(2) concat_split_strokes show ?thesis
    by blast
qed

lemma split_two_strokes:
  "split_strokes [mk_row 0 0 0, mk_row 1 1 0, mk_row 2 0 0, mk_row 3 1 1, mk_row 4 0 0, mk_row 5 1 1]
     = [[mk_row 0 0 0, mk_row 1 1 0, mk_row 2 0 0, mk_row 3 1 1], [mk_row 4 0 0, mk_row 5 1 1], []]"
  by (simp add: split_strokes_def np_split_def stroke_ends_def slice_def mk_row_def)

lemma eos_column_8: "eos_column 8 = [0, 0, 0, 0, 0, 0, 0, 1]"
  by (simp add: eos_column_def numeral_eq_Suc)

lemma eos_column_2: "eos_column (Suc (Suc 0)) = [0, 1]"
  by (simp add: eos_column_def)

theorem interpolate_resamples_witness:
  "(1::int) \<le> 2
   \<and> [mk_row 0 0 0, mk_row 1 1 0, mk_row 2 0 0, mk_row 3 1 1, mk_row 4 0 0, mk_row 5 1 1] \<noteq> []
   \<and> (\<exists>new_coords.
         interpolate grid_value
           [mk_row 0 0 0, mk_row 1 1 0, mk_row 2 0 0, mk_row 3 1 1, mk_row 4 0 0, mk_row 5 1 1] 2
           = Inr new_coords
       \<and> length new_coords = 10
       \<and> map eos new_coords = [0, 0, 0, 0, 0, 0, 0, 1, 0, 1])"
proof -
  let ?ex = "[mk_row 0 0 0, mk_row 1 1 0, mk_row 2 0 0, mk_row 3 1 1, mk_row 4 0 0, mk_row 5 1 1]"
  let ?s1 = "[mk_row 0 0 0, mk_row 1 1 0, mk_row 2 0 0, mk_row 3 1 1]"
  let ?s2 = "[mk_row 4 0 0, mk_row 5 1 1]"
  have "(1::int) \<le> 2" and "?ex \<noteq> []"
    by simp_all
  from interpolate_resamples [OF this, of grid_value]
  obtain new_coords where nc: "interpolate grid_value ?ex 2 = Inr (concat new_coords)"
      "list_all2 (resampled 2) (filter (\<lambda>s. s \<noteq> []) (split_strokes ?ex)) new_coords"
    by blast
  have "filter (\<lambda>s. s \<noteq> []) (split_strokes ?ex) = [?s1, ?s2]"
    by (simp add: split_two_strokes)
  with nc(2) have "list_all2 (resampled 2) [?s1, ?s2] new_coords"
    by simp
  then obtain a b where ab: "new_coords = [a, b]" "resampled 2 ?s1 a" "resampled 2 ?s2 b"
    by (auto simp add: list_all2_Cons1)
  have ea: "map eos a = [0, 0, 0, 0, 0, 0, 0, 1]"
    using ab(2) by (simp add: resampled_def eos_column_8)
  have eb: "map eos b = [0, 1]"
    using ab(3) by (simp add: resampled_def eos_column_2)
  have m: "map eos (concat new_coords) = [0, 0, 0, 0, 0, 0, 0, 1, 0, 1]"
    using ab(1) ea eb by simp
  have "length (map eos (concat new_coords)) = 10"
    by (simp only: m) simp
  then have "length (concat new_coords) = 10"
    by (simp only: length_map)
  with m nc(1) show ?thesis
    by simp
qed

text \<open>
  The claim as worded fails in two ways. A final piece of at most three points that does
  not end with a lift of the pen is not passed through unchanged: its last point gets the
  flag. And the factor cannot be any integer: with factor 0 a stroke of four points makes
  the function raise \<open>IndexError\<close>, with a negative factor \<open>ValueError\<close>.
\<close>

lemma short_piece:
  "split_strokes [mk_row 0 0 0, mk_row 1 1 0] = [[mk_row 0 0 0, mk_row 1 1 0]]"
  by (simp add: split_strokes_def np_split_def stroke_ends_def slice_def mk_row_def)

lemma short_image:
  "interpolate_stroke grid_value 2 [mk_row 0 0 0, mk_row 1 1 0] = Inr [mk_row 0 0 0, mk_row 1 1 1]"
  by (simp add: interpolate_stroke_def resample_def terminate_def Let_def mk_row_def)

lemma short_interpolated: "interpolate grid_value [mk_row 0 0 0, mk_row 1 1 0] 2 = Inr [mk_row 0 0 0, mk_row 1 1 1]"
  by (simp add: interpolate_def short_piece short_image np_vstack_def)

lemma long_piece:
  "split_strokes [mk_row 0 0 0, mk_row 1 1 0, mk_row 2 0 0, mk_row 3 1 1]
     = [[mk_row 0 0 0, mk_row 1 1 0, mk_row 2 0 0, mk_row 3 1 1], []]"
  by (simp add: split_strokes_def np_split_def stroke_ends_def slice_def mk_row_def)

lemma long_zero:
  "interpolate_stroke grid_value 0 [mk_row 0 0 0, mk_row 1 1 0, mk_row 2 0 0, mk_row 3 1 1]
     = Inl IndexError"
  by (simp add: interpolate_stroke_def resample_def terminate_def linspace_def Let_def)

lemma long_negative:
  "interpolate_stroke grid_value (- 1) [mk_row 0 0 0, mk_row 1 1 0, mk_row 2 0 0, mk_row 3 1 1]
     = Inl (ValueError NegativeSamples)"
  by (simp add: interpolate_stroke_def resample_def linspace_def)

theorem interpolate_counterexample:
  "interpolate grid_value [mk_row 0 0 0, mk_row 1 1 0] 2 = Inr [mk_row 0 0 0, mk_row 1 1 1]
   \<and> [mk_row 0 0 0, mk_row 1 1 1] \<noteq> [mk_row 0 0 0, mk_row 1 1 0]
   \<and> interpolate grid_value [mk_row 0 0 0, mk_row 1 1 0, mk_row 2 0 0, mk_row 3 1 1] 0
       = Inl IndexError
   \<and> interpolate grid_value [mk_row 0 0 0, mk_row 1 1 0, mk_row 2 0 0, mk_row 3 1 1] (- 1)
       = Inl (ValueError NegativeSamples)"
proof -
  have "[mk_row 0 0 0, mk_row 1 1 1] \<noteq> [mk_row 0 0 0, mk_row 1 1 0]"
    by (simp add: mk_row_def)
  moreover have "interpolate grid_value [mk_row 0 0 0, mk_row 1 1 0, mk_row 2 0 0, mk_row 3 1 1] 0
       = Inl IndexError"
    by (simp add: interpolate_def long_piece long_zero)
  moreover have "interpolate grid_value [mk_row 0 0 0, mk_row 1 1 0, mk_row 2 0 0, mk_row 3 1 1] (- 1)
       = Inl (ValueError NegativeSamples)"
    by (simp add: interpolate_def long_piece long_negative)
  ultimately show ?thesis
    using short_interpolated by blast
qed

section \<open>Messiness: the drift across the line\<close>

lemma length_drift_loop: "length (drift_loop a r idxs coords) = length coords"
  by (induction a r idxs coords rule: drift_loop.induct) (simp_all add: Let_def)

lemma drift_loop_nth:
  assumes "distinct idxs" and "i < length coords"
  shows "drift_loop a r idxs coords ! i =
     (if i \<in> set idxs then drifted a r (px (coords ! 0)) (coords ! i) else coords ! i)"
  using assms
proof (induction a r idxs coords rule: drift_loop.induct)
  case (1 a r coords)
  show ?case by simp
next
  case (2 a r j rest coords)
  let ?c = "coords[j := drifted a r (px (coords ! 0)) (coords ! j)]"
  have step: "drift_loop a r (j # rest) coords = drift_loop a r rest ?c"
    by (simp add: Let_def drifted_def)
  have x0: "px (?c ! 0) = px (coords ! 0)"
    using 2(3) by (cases "j = 0") (simp_all add: drifted_def)
  have ih: "drift_loop a r rest ?c ! i =
     (if i \<in> set rest then drifted a r (px (?c ! 0)) (?c ! i) else ?c ! i)"
    using 2(1) [OF refl] 2(2) 2(3) by (simp add: drifted_def)
  show ?case
  proof (cases "i = j")
    case True
    then have "i \<notin> set rest" using 2(2) by simp
    with True ih step 2(3) show ?thesis by simp
  next
    case False
    with ih step x0 show ?thesis by simp
  qed
qed

lemma global_drift_applied:
  assumes "rf > 0" and "length coords > 10" and "px (last coords) - px (coords ! 0) > 0"
  shows "global_drift rf coords g =
     (drift_loop (rf * fst (uniform (- 3) 3 g)) (px (last coords) - px (coords ! 0))
        [0..<length coords] coords, snd (uniform (- 3) 3 g))"
  using assms by (simp add: global_drift_def Let_def case_prod_unfold)

text \<open>
  Claim C5, as amended. When \<open>rush_factor > 0\<close> and the sequence has more than ten points,
  the drift step looks at \<open>x_range\<close>, the x of the last point minus the x of the first.
  If \<open>x_range > 0\<close>, one amplitude \<open>A = rush_factor * U(-3, 3)\<close> is drawn and every
  point's y is increased by \<open>A * sin (progress * pi)\<close> with
  \<open>progress = (x - x_first) / x_range\<close>; x and the end-of-stroke flag are kept. If
  \<open>x_range \<le> 0\<close> the step is skipped: nothing is drawn, nothing is divided, the sequence
  is returned as it is.
\<close>

theorem global_drift_effect:
  assumes "rf > 0" and "length coords > 10"
  shows "(px (last coords) - px (coords ! 0) > 0 \<longrightarrow>
            length (fst (global_drift rf coords g)) = length coords
          \<and> snd (global_drift rf coords g) = snd (uniform (- 3) 3 g)
          \<and> (\<forall>i < length coords.
                fst (global_drift rf coords g) ! i =
                  (coords ! i)\<lparr>py := py (coords ! i)
                     + rf * fst (uniform (- 3) 3 g)
                       * sin ((px (coords ! i) - px (coords ! 0))
                              / (px (last coords) - px (coords ! 0)) * pi)\<rparr>))
       \<and> (px (last coords) - px (coords ! 0) \<le> 0 \<longrightarrow> global_drift rf coords g = (coords, g))"
proof (intro conjI impI allI)
  assume pos: "px (last coords) - px (coords ! 0) > 0"
  note gd = global_drift_applied [OF assms pos, of g]
  show "length (fst (global_drift rf coords g)) = length coords"
    by (simp add: gd length_drift_loop)
  show "snd (global_drift rf coords g) = snd (uniform (- 3) 3 g)"
    by (simp add: gd)
  fix i assume i: "i < length coords"
  have "drift_loop (rf * fst (uniform (- 3) 3 g)) (px (last coords) - px (coords ! 0))
          [0..<length coords] coords ! i
        = drifted (rf * fst (uniform (- 3) 3 g)) (px (last coords) - px (coords ! 0))
            (px (coords ! 0)) (coords ! i)"
    using drift_loop_nth [of "[0..<length coords]" i coords] i by simp
  then show "fst (global_drift rf coords g) ! i =
                  (coords ! i)\<lparr>py := py (coords ! i)
                     + rf * fst (uniform (- 3) 3 g)
                       * sin ((px (coords ! i) - px (coords ! 0))
                              / (px (last coords) - px (coords ! 0)) * pi)\<rparr>"
    by (simp add: gd drifted_def)
next
  assume "px (last coords) - px (coords ! 0) \<le> 0"
  then show "global_drift rf coords g = (coords, g)"
    by (simp add: global_drift_def Let_def)
qed

theorem global_drift_effect_witness:
  "(1/2 :: real) > 0
   \<and> length (flat_line [0,1,2,3,4,5,6,7,8,9,10]) > 10
   \<and> px (last (flat_line [0,1,2,3,4,5,6,7,8,9,10])) - px (flat_line [0,1,2,3,4,5,6,7,8,9,10] ! 0) > 0
   \<and> py (fst (global_drift (1/2) (flat_line [0,1,2,3,4,5,6,7,8,9,10]) (\<lambda>n. 0)) ! 5) = - 3/2
   \<and> px (last (flat_line [10,9,8,7,6,5,4,3,2,1,0])) - px (flat_line [10,9,8,7,6,5,4,3,2,1,0] ! 0) \<le> 0
   \<and> global_drift (1/2) (flat_line [10,9,8,7,6,5,4,3,2,1,0]) (\<lambda>n. 0) = (flat_line [10,9,8,7,6,5,4,3,2,1,0], \<lambda>n. 0)"
  using global_drift_effect [of "1/2" "flat_line [0,1,2,3,4,5,6,7,8,9,10]" "\<lambda>n. 0"]
    global_drift_effect [of "1/2" "flat_line [10,9,8,7,6,5,4,3,2,1,0]" "\<lambda>n. 0"]
  by (simp add: flat_line_def mk_row_def uniform_def rng_next_def)

text \<open>
  The claim as worded fails: the progress is measured from the first point and not from
  the minimum, so a point to the left of the first one has a negative progress and is moved
  although its progress in the wording's sense is 0; and a line whose last point is to the
  left of its first one has a nonzero range of x and is left alone.
\<close>

theorem global_drift_counterexample:
  "(1/2 :: real) > 0
   \<and> length (flat_line [0, -1, 0, 0, 0, 0, 0, 0, 0, 0, 2]) > 10
   \<and> x_max (flat_line [0, -1, 0, 0, 0, 0, 0, 0, 0, 0, 2])
       - x_min (flat_line [0, -1, 0, 0, 0, 0, 0, 0, 0, 0, 2]) = 3
   \<and> spec_progress (flat_line [0, -1, 0, 0, 0, 0, 0, 0, 0, 0, 2]) 1 = 0
   \<and> py (flat_line [0, -1, 0, 0, 0, 0, 0, 0, 0, 0, 2] ! 1)
       + 1/2 * fst (uniform (- 3) 3 (\<lambda>n. 0))
         * sin (spec_progress (flat_line [0, -1, 0, 0, 0, 0, 0, 0, 0, 0, 2]) 1 * pi) = 0
   \<and> py (fst (global_drift (1/2) (flat_line [0, -1, 0, 0, 0, 0, 0, 0, 0, 0, 2]) (\<lambda>n. 0)) ! 1)
       = 3/2
   \<and> x_max (flat_line [10, 9, 8, 7, 6, 5, 4, 3, 2, 1, 0])
       - x_min (flat_line [10, 9, 8, 7, 6, 5, 4, 3, 2, 1, 0]) = 10
   \<and> global_drift (1/2) (flat_line [10, 9, 8, 7, 6, 5, 4, 3, 2, 1, 0]) (\<lambda>n. 0)
       = (flat_line [10, 9, 8, 7, 6, 5, 4, 3, 2, 1, 0], \<lambda>n. 0)"
proof -
  let ?ex = "flat_line [0, -1, 0, 0, 0, 0, 0, 0, 0, 0, 2]"
  let ?g = "\<lambda>n::nat. 0::real"
  have len: "length ?ex = 11"
    by (simp add: flat_line_def)
  have rows: "?ex ! 0 = mk_row 0 0 0" "?ex ! 1 = mk_row (- 1) 0 0" "last ?ex = mk_row 2 0 1"
    "?ex ! Suc 0 = mk_row (- 1) 0 0"
    by (simp_all add: flat_line_def)
  have u: "uniform (- 3) 3 ?g = (- 3, ?g)"
    by (simp add: uniform_def rng_next_def)
  have gd: "global_drift (1/2) ?ex ?g =
     (drift_loop (1/2 * fst (uniform (- 3) 3 ?g)) (px (last ?ex) - px (?ex ! 0))
        [0..<length ?ex] ?ex, snd (uniform (- 3) 3 ?g))"
    by (rule global_drift_applied) (simp_all add: len rows mk_row_def)
  have "drift_loop (1/2 * fst (uniform (- 3) 3 ?g)) (px (last ?ex) - px (?ex ! 0))
          [0..<length ?ex] ?ex ! 1
        = drifted (1/2 * fst (uniform (- 3) 3 ?g)) (px (last ?ex) - px (?ex ! 0))
            (px (?ex ! 0)) (?ex ! 1)"
    using drift_loop_nth [of "[0..<length ?ex]" 1 ?ex] len by simp
  then have moved: "py (fst (global_drift (1/2) ?ex ?g) ! 1) = 3/2"
    by (simp add: gd u rows mk_row_def drifted_def)
  have mm: "x_min ?ex = - 1" "x_max ?ex = 2"
    by (simp_all add: x_min_def x_max_def flat_line_def mk_row_def)
  have sp: "spec_progress ?ex 1 = 0"
    by (simp add: spec_progress_def mm rows mk_row_def)
  have skipped: "global_drift (1/2) (flat_line [10, 9, 8, 7, 6, 5, 4, 3, 2, 1, 0]) ?g
       = (flat_line [10, 9, 8, 7, 6, 5, 4, 3, 2, 1, 0], ?g)"
    by (simp add: global_drift_def flat_line_def mk_row_def)
  have mm2: "x_max (flat_line [10, 9, 8, 7, 6, 5, 4, 3, 2, 1, 0])
       - x_min (flat_line [10, 9, 8, 7, 6, 5, 4, 3, 2, 1, 0]) = 10"
    by (simp add: x_min_def x_max_def flat_line_def mk_row_def)
  show ?thesis
    using len mm sp moved skipped mm2 by (simp add: rows mk_row_def)
qed

end
